theory Spec2Isabelle
  imports Complex_Main "HOL-Library.Multiset"
begin

section \<open>The voice guidance engine of the dashboard\<close>

text \<open>
  The risk-aware voice guidance system is the JavaScript block
  ``INTELLIGENT VOICE GUIDANCE SYSTEM'' of the dashboard script: the classifiers
  \<open>getRiskCategory\<close> and \<open>getDistanceLevel\<close>, the bounding-box and motion helpers, the
  message builder \<open>buildSmartMessage\<close>, the dispatcher \<open>speak\<close> and the per-cycle entry
  point \<open>processDetections\<close>.

  Conventions of the embedding.
  \<^item> JavaScript numbers that carry measurements (distances, box coordinates, areas) are
    real numbers, and a value of type \<open>jsnum\<close> is such a number, an infinity or \<open>NaN\<close>.
    The sums and quotients of \<open>calculateMotionStatus\<close> are the operations of the
    language: the exact result rounded to binary64, an infinity on overflow or for a
    zero divisor, \<open>NaN\<close> for 0/0. The zero of the model has no sign. The area of a box
    and the difference of two distances in the sort comparator are exact; an area with an
    absent operand is \<open>NaN\<close> (\<open>None\<close> of an optional area).
  \<^item> Timestamps (\<open>Date.now()\<close>, milliseconds) are integers, handed to each function that
    reads the clock.
  \<^item> An absent property (\<open>undefined\<close>) is \<open>None\<close>.
  \<^item> Strings are character lists; \<open>toLowerCase\<close> folds the letters A to Z.
  \<^item> The globals of the script (\<open>STATE.voiceActive\<close>, \<open>voiceReady\<close>,
    \<open>lastSpeechTime\<close>, \<open>objectState\<close>, the browser's \<open>speechSynthesis\<close> queue) are the
    fields of one record that every stateful function takes and returns.
\<close>

subsection \<open>Numbers and strings of the host language\<close>

datatype jsnum = Fin real | PosInf | NegInf | NaN

text \<open>
  Rounding of a real number to binary64, to nearest with ties to even. \<open>binade x\<close> is the
  power of two \<open>2 ^ e\<close> with \<open>2 ^ e \<le> x < 2 ^ (e + 1)\<close>, found by doubling or halving and
  kept within the exponents 1023 and -1022 of the format (below \<open>2 ^ -1022\<close> the numbers are
  subnormal and share the spacing of that binade). A number has 53 significant bits, so
  the spacing of the doubles around \<open>x\<close> is \<open>binade \<bar>x\<bar> / 2 ^ 52\<close>; a result of magnitude
  \<open>2 ^ 1024\<close> or more is an infinity.
\<close>

fun normDown :: "nat \<Rightarrow> real \<Rightarrow> real \<Rightarrow> real" where
  "normDown n x p = (if n = 0 \<or> x < 2 * p then p else normDown (n - 1) x (2 * p))"

fun normUp :: "nat \<Rightarrow> real \<Rightarrow> real \<Rightarrow> real" where
  "normUp n x p = (if n = 0 \<or> p \<le> x then p else normUp (n - 1) x (p / 2))"

declare normDown.simps [simp del] normUp.simps [simp del]

definition binade :: "real \<Rightarrow> real" where
  "binade x = (if 1 \<le> x then normDown 1023 x 1 else normUp 1022 x 1)"

definition roundHalfEven :: "real \<Rightarrow> int" where
  "roundHalfEven q =
     (let f = \<lfloor>q\<rfloor>; d = q - of_int f
      in if d < 1 / 2 then f else if 1 / 2 < d then f + 1 else if even f then f else f + 1)"

definition fl :: "real \<Rightarrow> jsnum" where
  "fl x =
     (let ulp = binade \<bar>x\<bar> / 2 ^ 52;
          r = of_int (roundHalfEven (x / ulp)) * ulp
      in if 2 ^ 1024 \<le> r then PosInf else if r \<le> - (2 ^ 1024) then NegInf else Fin r)"

text \<open>
  JavaScript's \<open>+\<close> and \<open>/\<close> on numbers: the exact result rounded, with the results of
  IEEE 754 for a zero divisor, for the infinities and for \<open>NaN\<close>.
\<close>

fun jsadd :: "jsnum \<Rightarrow> jsnum \<Rightarrow> jsnum" where
  "jsadd (Fin a) (Fin b) = fl (a + b)"
| "jsadd NaN _ = NaN"
| "jsadd _ NaN = NaN"
| "jsadd PosInf NegInf = NaN"
| "jsadd NegInf PosInf = NaN"
| "jsadd PosInf _ = PosInf"
| "jsadd _ PosInf = PosInf"
| "jsadd NegInf _ = NegInf"
| "jsadd _ NegInf = NegInf"

fun jsdiv :: "jsnum \<Rightarrow> jsnum \<Rightarrow> jsnum" where
  "jsdiv (Fin a) (Fin b) =
     (if b \<noteq> 0 then fl (a / b)
      else if 0 < a then PosInf
      else if a < 0 then NegInf
      else NaN)"
| "jsdiv NaN _ = NaN"
| "jsdiv _ NaN = NaN"
| "jsdiv (Fin a) PosInf = Fin 0"
| "jsdiv (Fin a) NegInf = Fin 0"
| "jsdiv PosInf (Fin b) = (if b < 0 then NegInf else PosInf)"
| "jsdiv NegInf (Fin b) = (if b < 0 then PosInf else NegInf)"
| "jsdiv PosInf _ = NaN"
| "jsdiv NegInf _ = NaN"

text \<open>Comparisons of a number with a finite constant; every comparison with \<open>NaN\<close> is false.\<close>

fun jsge :: "jsnum \<Rightarrow> real \<Rightarrow> bool" where
  "jsge (Fin r) t = (t \<le> r)"
| "jsge PosInf t = True"
| "jsge NegInf t = False"
| "jsge NaN t = False"

fun jsle :: "jsnum \<Rightarrow> real \<Rightarrow> bool" where
  "jsle (Fin r) t = (r \<le> t)"
| "jsle PosInf t = False"
| "jsle NegInf t = True"
| "jsle NaN t = False"

fun jsgt :: "jsnum \<Rightarrow> real \<Rightarrow> bool" where
  "jsgt (Fin r) t = (t < r)"
| "jsgt PosInf t = True"
| "jsgt NegInf t = False"
| "jsgt NaN t = False"

fun jslt :: "jsnum \<Rightarrow> real \<Rightarrow> bool" where
  "jslt (Fin r) t = (r < t)"
| "jslt PosInf t = False"
| "jslt NegInf t = True"
| "jslt NaN t = False"

definition toLowerChar :: "char \<Rightarrow> char" where
  "toLowerChar c =
     (case map_of (zip ''ABCDEFGHIJKLMNOPQRSTUVWXYZ'' ''abcdefghijklmnopqrstuvwxyz'') c of
        Some l \<Rightarrow> l
      | None \<Rightarrow> c)"

definition toLowerCase :: "string \<Rightarrow> string" where
  "toLowerCase s = map toLowerChar s"

text \<open>\<open>a || b\<close> on strings: the empty string is falsy.\<close>

definition orElse :: "string \<Rightarrow> string \<Rightarrow> string" where
  "orElse a b = (if a = [] then b else a)"

subsection \<open>Configuration tables\<close>

datatype risk_category = HIGH | MEDIUM | LOW

fun risk_priority :: "risk_category \<Rightarrow> int" where
  "risk_priority HIGH = 3"
| "risk_priority MEDIUM = 2"
| "risk_priority LOW = 1"

fun risk_objects :: "risk_category \<Rightarrow> string list" where
  "risk_objects HIGH = [''car'', ''bus'', ''truck'', ''train'', ''airplane'']"
| "risk_objects MEDIUM = [''bicycle'', ''motorcycle'', ''person'', ''dog'', ''horse'']"
| "risk_objects LOW =
     [''chair'', ''table'', ''bottle'', ''cup'', ''laptop'', ''book'', ''couch'',
      ''bed'', ''potted plant'', ''tv'', ''backpack'', ''handbag'', ''umbrella'',
      ''bench'', ''dining table'', ''toilet'', ''sink'', ''refrigerator'', ''oven'',
      ''microwave'', ''cell phone'', ''keyboard'', ''mouse'', ''remote'', ''clock'']"

datatype distance_level = VERY_CLOSE | NEAR | FAR | CLEAR

fun level_priority :: "distance_level \<Rightarrow> int" where
  "level_priority VERY_CLOSE = 3"
| "level_priority NEAR = 2"
| "level_priority FAR = 1"
| "level_priority CLEAR = 0"

definition threshold_VERY_CLOSE :: real where "threshold_VERY_CLOSE = 1.2"
definition threshold_NEAR :: real where "threshold_NEAR = 3.0"
definition threshold_FAR :: real where "threshold_FAR = 6.0"

definition globalCooldown :: int where "globalCooldown = 8000"
definition criticalCooldown :: int where "criticalCooldown = 3000"
definition perObjectCooldown :: int where "perObjectCooldown = 10000"
definition configRate :: real where "configRate = 0.92"
definition configPitch :: real where "configPitch = 1.0"
definition configVolume :: real where "configVolume = 1.0"

text \<open>The doubles that the literals \<open>1.05\<close> and \<open>0.95\<close> denote.\<close>

definition approachThreshold :: real where
  "approachThreshold = 4728779608739021 / 4503599627370496"

definition recedeThreshold :: real where
  "recedeThreshold = 8556839292003942 / 9007199254740992"

definition minSamples :: nat where "minSamples = 2"
definition sizeHistoryLength :: nat where "sizeHistoryLength = 5"

subsection \<open>Detections\<close>

text \<open>
  A detection is the object the perception pipeline sends: a class label and the optional
  properties the script reads. \<open>track_id\<close> is a number or a string.
\<close>

datatype jsid = IdNum int | IdStr string

fun truthy_id :: "jsid option \<Rightarrow> bool" where
  "truthy_id None = False"
| "truthy_id (Some (IdNum n)) = (n \<noteq> 0)"
| "truthy_id (Some (IdStr s)) = (s \<noteq> [])"

record detection =
  det_class :: string
  det_track_id :: "jsid option"
  det_position :: "string option"
  det_distance_m :: "real option"
  det_bbox :: "real list option"
  det_x1 :: "real option"
  det_y1 :: "real option"
  det_x2 :: "real option"
  det_y2 :: "real option"
  det_width :: "real option"
  det_height :: "real option"

subsection \<open>Helper functions\<close>

definition getRiskCategory :: "string \<Rightarrow> risk_category" where
  "getRiskCategory objectClass =
     (let lowerClass = toLowerCase objectClass in
      if lowerClass \<in> set (risk_objects HIGH) then HIGH
      else if lowerClass \<in> set (risk_objects MEDIUM) then MEDIUM
      else LOW)"

definition getDistanceLevel :: "real \<Rightarrow> distance_level" where
  "getDistanceLevel distanceM =
     (if distanceM \<le> threshold_VERY_CLOSE then VERY_CLOSE
      else if distanceM \<le> threshold_NEAR then NEAR
      else if distanceM \<le> threshold_FAR then FAR
      else CLEAR)"

text \<open>
  \<open>Math.abs((x2 - x1) * (y2 - y1))\<close> where any of the four operands may be absent: an
  absent operand makes the product \<open>NaN\<close>. An area is \<open>Some r\<close> for the number \<open>r\<close> and
  \<open>None\<close> for \<open>NaN\<close>.
\<close>

fun boxArea :: "real option \<Rightarrow> real option \<Rightarrow> real option \<Rightarrow> real option \<Rightarrow> real option" where
  "boxArea (Some x1) (Some y1) (Some x2) (Some y2) = Some \<bar>(x2 - x1) * (y2 - y1)\<bar>"
| "boxArea _ _ _ _ = None"

text \<open>Array destructuring: the element at an index, absent beyond the end.\<close>

definition nth_opt :: "'a list \<Rightarrow> nat \<Rightarrow> 'a option" where
  "nth_opt xs i = (if i < length xs then Some (xs ! i) else None)"

text \<open>A number property is truthy when it is present and not zero.\<close>

fun truthy_num :: "real option \<Rightarrow> bool" where
  "truthy_num None = False"
| "truthy_num (Some r) = (r \<noteq> 0)"

definition getBboxSize :: "detection \<Rightarrow> real option" where
  "getBboxSize det =
     (case det_bbox det of
        Some b \<Rightarrow> boxArea (nth_opt b 0) (nth_opt b 1) (nth_opt b 2) (nth_opt b 3)
      | None \<Rightarrow>
          if det_x1 det \<noteq> None \<and> det_y1 det \<noteq> None
          then boxArea (det_x1 det) (det_y1 det) (det_x2 det) (det_y2 det)
          else if truthy_num (det_width det) \<and> truthy_num (det_height det)
          then Some (the (det_width det) * the (det_height det))
          else Some 0)"

record motion_status =
  isApproaching :: bool
  isReceding :: bool
  isStationary :: bool

definition verdict :: "jsnum \<Rightarrow> motion_status" where
  "verdict ratio =
     \<lparr> isApproaching = jsge ratio approachThreshold,
       isReceding = jsle ratio recedeThreshold,
       isStationary = (jsgt ratio recedeThreshold \<and> jslt ratio approachThreshold) \<rparr>"

text \<open>\<open>arr.reduce((a, b) => a + b, 0)\<close>\<close>

definition sumOf :: "real list \<Rightarrow> jsnum" where
  "sumOf xs = foldl jsadd (Fin 0) (map Fin xs)"

definition calculateMotionStatus :: "real list option \<Rightarrow> motion_status" where
  "calculateMotionStatus sizeHistory =
     (case sizeHistory of
        None \<Rightarrow> \<lparr> isApproaching = False, isReceding = False, isStationary = True \<rparr>
      | Some h \<Rightarrow>
          if length h < minSamples
          then \<lparr> isApproaching = False, isReceding = False, isStationary = True \<rparr>
          else
            let recent = drop (length h - 2) h;
                older = take (length h - 2) h
            in if length older = 0
               then verdict (jsdiv (Fin (recent ! 1)) (Fin (recent ! 0)))
               else
                 let recentAvg = jsdiv (sumOf recent) (Fin (real (length recent)));
                     olderAvg = jsdiv (sumOf older) (Fin (real (length older)));
                     ratio = jsdiv recentAvg olderAvg
                 in verdict ratio)"

text \<open>
  The samples of a history are finite numbers; a sum of them can overflow to an infinity
  and a quotient can be an infinity or \<open>NaN\<close>, which is why the averages and the ratio are
  of type \<open>jsnum\<close>.
\<close>

subsection \<open>The message builder\<close>

definition buildSmartMessage ::
  "string \<Rightarrow> risk_category \<Rightarrow> distance_level \<Rightarrow> string \<Rightarrow> motion_status option
     \<Rightarrow> string option" where
  "buildSmartMessage objectClass risk level position motionStatus =
     (let isVehicle = (toLowerCase objectClass \<in> set (risk_objects HIGH));
          isMediumRisk = (risk = MEDIUM);
          isPerson = (toLowerCase objectClass = ''person'');
          isApproachingNow =
            ((case motionStatus of None \<Rightarrow> False | Some m \<Rightarrow> isApproaching m) \<or> False);
          isStationaryNow =
            ((case motionStatus of None \<Rightarrow> False | Some m \<Rightarrow> isStationary m) \<or> True);
          dirText =
            (if level = VERY_CLOSE
             then (if position = ''left'' then '' on left''
                   else if position = ''right'' then '' on right''
                   else [])
             else [])
      in
      if level = FAR then
        (if \<not> isApproachingNow then None
         else if isVehicle \<and> isApproachingNow then Some ''Vehicle approaching ahead.''
         else if isPerson \<and> isApproachingNow then Some ''Person approaching.''
         else if risk = LOW then None
         else if isApproachingNow then Some (objectClass @ '' approaching.'') else None)
      else if level = NEAR then
        (if isStationaryNow \<and> \<not> isApproachingNow then
           (if isVehicle then Some ''Vehicle nearby.''
            else if risk = LOW then None
            else if isPerson then Some ''Person nearby.''
            else None)
         else if isApproachingNow then
           (if isVehicle then Some ''Vehicle approaching. Stay alert.''
            else if isPerson then Some ''Person approaching.''
            else if isMediumRisk then Some (objectClass @ '' approaching.'')
            else Some ''Obstacle approaching.'')
         else if isVehicle then Some ''Vehicle nearby.''
         else if risk = LOW then None
         else None)
      else if level = VERY_CLOSE then
        (if isVehicle then
           (if isApproachingNow then Some (''Stop. Vehicle very close'' @ dirText @ ''. Moving.'')
            else Some (''Stop. Vehicle very close'' @ dirText @ ''.''))
         else if isPerson then
           (if isApproachingNow
            then Some (''Careful. Person approaching'' @ orElse dirText '' ahead'' @ ''.'')
            else Some (''Careful. Person'' @ orElse dirText '' ahead'' @ ''.''))
         else if isMediumRisk then
           (if isApproachingNow
            then Some (''Stop. '' @ objectClass @ '' approaching'' @ orElse dirText [] @ ''.'')
            else Some (''Stop. '' @ objectClass @ orElse dirText '' ahead'' @ ''.''))
         else if isApproachingNow
         then Some (''Obstacle approaching'' @ orElse dirText '' ahead'' @ ''.'')
         else Some (''Obstacle'' @ orElse dirText '' ahead'' @ ''. Stop.''))
      else None)"

subsection \<open>The speech channel\<close>

text \<open>
  An utterance handed to the browser, and the state the script keeps in globals.
  \<open>speechSynthesis\<close> is \<open>None\<close> where the browser has no speech synthesis; otherwise it
  holds the utterances queued and not yet cancelled (\<open>cancel()\<close> empties the queue,
  \<open>speak(u)\<close> appends to it). The DOM updates of the \<open>onstart\<close> and \<open>onend\<close> callbacks
  are not part of the model.
\<close>

record utterance =
  u_text :: string
  u_rate :: real
  u_pitch :: real
  u_volume :: real
  u_voice :: "string option"

record tracked =
  os_level :: distance_level
  os_risk :: risk_category
  os_class :: string
  os_position :: string
  os_distance :: real
  os_bboxSizes :: "real list"
  os_isApproaching :: bool
  os_isStationary :: bool
  os_lastSeen :: int
  os_lastAnnounced :: int

record engine =
  voiceActive :: bool
  voiceReady :: bool
  voiceSpeed :: real
  preferredVoice :: "string option"
  speechSynthesis :: "utterance list option"
  lastSpeechTime :: int
  objectState :: "jsid \<Rightarrow> tracked option"

text \<open>
  \<open>speak(text, priority)\<close> at clock reading \<open>now\<close>: the returned flag and the state after
  the call. Any priority other than \<open>'critical'\<close> takes the global cooldown.
\<close>

definition speak :: "engine \<Rightarrow> int \<Rightarrow> string \<Rightarrow> string \<Rightarrow> bool \<times> engine" where
  "speak st now text priority =
     (if \<not> voiceActive st \<or> speechSynthesis st = None \<or> text = [] then (False, st)
      else
        let cooldown = (if priority = ''critical'' then criticalCooldown else globalCooldown)
        in if priority \<noteq> ''critical'' \<and> now - lastSpeechTime st < cooldown then (False, st)
           else
             let utt = \<lparr> u_text = text,
                         u_rate = (if voiceSpeed st \<noteq> 0 then voiceSpeed st else configRate),
                         u_pitch = configPitch,
                         u_volume = configVolume,
                         u_voice = preferredVoice st \<rparr>;
                 queue = (if priority = ''critical'' then [] else the (speechSynthesis st))
             in (True, st\<lparr> speechSynthesis := Some (queue @ [utt]), lastSpeechTime := now \<rparr>))"

subsection \<open>The detection processor\<close>

record announcement =
  trackId :: jsid
  message :: string
  priority :: int
  isCritical :: bool

text \<open>The variables of one run of \<open>processDetections\<close> that its loop updates.\<close>

record cycle =
  c_objectState :: "jsid \<Rightarrow> tracked option"
  c_currentIds :: "jsid set"
  c_announcement :: "announcement option"

text \<open>\<open>det.track_id || `${det.class}_${det.position || 'c'}`\<close>\<close>

definition trackIdOf :: "detection \<Rightarrow> jsid" where
  "trackIdOf det =
     (if truthy_id (det_track_id det) then the (det_track_id det)
      else IdStr (det_class det @ ''_'' @
             (case det_position det of None \<Rightarrow> ''c'' | Some p \<Rightarrow> orElse p ''c'')))"

text \<open>\<open>det.distance_m || 10\<close>: an absent distance and the distance 0 are both falsy.\<close>

definition distanceOf :: "detection \<Rightarrow> real" where
  "distanceOf det =
     (case det_distance_m det of None \<Rightarrow> 10 | Some r \<Rightarrow> if r \<noteq> 0 then r else 10)"

text \<open>\<open>det.position || 'center'\<close>\<close>

definition positionOf :: "detection \<Rightarrow> string" where
  "positionOf det = (case det_position det of None \<Rightarrow> ''center'' | Some p \<Rightarrow> orElse p ''center'')"

text \<open>
  The comparator of the sort, and the sort itself: \<open>Array.prototype.sort\<close> is stable, so
  with this comparator its result is the one of a stable insertion sort.
\<close>

definition compareDetections :: "detection \<Rightarrow> detection \<Rightarrow> real" where
  "compareDetections a b =
     (let riskA = risk_priority (getRiskCategory (det_class a));
          riskB = risk_priority (getRiskCategory (det_class b))
      in if riskB \<noteq> riskA then real_of_int (riskB - riskA)
         else distanceOf a - distanceOf b)"

fun insertDetection :: "detection \<Rightarrow> detection list \<Rightarrow> detection list" where
  "insertDetection x [] = [x]"
| "insertDetection x (y # ys) =
     (if compareDetections x y \<le> 0 then x # y # ys else y # insertDetection x ys)"

definition sortDetections :: "detection list \<Rightarrow> detection list" where
  "sortDetections dets = foldr insertDetection dets []"

text \<open>The body of the loop \<open>for (const det of sorted)\<close>, at the cycle's clock reading.\<close>

definition processOne :: "int \<Rightarrow> cycle \<Rightarrow> detection \<Rightarrow> cycle" where
  "processOne now c det =
     (let trackId' = trackIdOf det;
          c1 = c\<lparr> c_currentIds := insert trackId' (c_currentIds c) \<rparr>;
          distance = distanceOf det;
          level = getDistanceLevel distance;
          risk = getRiskCategory (det_class det);
          position = positionOf det;
          bboxSize = getBboxSize det
      in
      if level = CLEAR then c1
      else
        let prev = c_objectState c trackId';
            prevLevel = map_option os_level prev;
            prevRisk = map_option os_risk prev;
            prevApproaching = (case prev of None \<Rightarrow> False | Some p \<Rightarrow> os_isApproaching p);
            bboxSizes0 = (case prev of None \<Rightarrow> [] | Some p \<Rightarrow> os_bboxSizes p);
            bboxSizes =
              (case bboxSize of
                 None \<Rightarrow> bboxSizes0
               | Some area \<Rightarrow>
                   if 0 < area then
                     (let pushed = bboxSizes0 @ [area]
                      in if sizeHistoryLength < length pushed
                         then drop (length pushed - sizeHistoryLength) pushed
                         else pushed)
                   else bboxSizes0);
            motionStatus = calculateMotionStatus (Some bboxSizes);
            isNew = (prev = None);
            levelChanged = (prev \<noteq> None \<and> prevLevel \<noteq> Some level);
            riskChanged = (prev \<noteq> None \<and> prevRisk \<noteq> Some risk);
            approachingChanged = (prev \<noteq> None \<and> prevApproaching \<noteq> isApproaching motionStatus);
            perObjectCooldownOk =
              (case prev of
                 None \<Rightarrow> True
               | Some p \<Rightarrow> os_lastAnnounced p = 0 \<or> perObjectCooldown < now - os_lastAnnounced p);
            c2 = c1\<lparr> c_objectState := (c_objectState c)(trackId' \<mapsto>
                   \<lparr> os_level = level,
                     os_risk = risk,
                     os_class = det_class det,
                     os_position = position,
                     os_distance = distance,
                     os_bboxSizes = bboxSizes,
                     os_isApproaching = isApproaching motionStatus,
                     os_isStationary = isStationary motionStatus,
                     os_lastSeen = now,
                     os_lastAnnounced = (case prev of None \<Rightarrow> 0 | Some p \<Rightarrow> os_lastAnnounced p) \<rparr>) \<rparr>;
            shouldAnnounce =
              ((isNew \<or> levelChanged \<or> riskChanged \<or>
                (approachingChanged \<and> isApproaching motionStatus)) \<and> perObjectCooldownOk)
        in
        if \<not> shouldAnnounce then c2
        else
          (case buildSmartMessage (det_class det) risk level position (Some motionStatus) of
             None \<Rightarrow> c2
           | Some msg \<Rightarrow>
               if msg = [] then c2
               else
                 let announcePriority = level_priority level * 10 + risk_priority risk
                 in if (case c_announcement c of
                          None \<Rightarrow> True
                        | Some best \<Rightarrow> priority best < announcePriority)
                    then c2\<lparr> c_announcement := Some
                           \<lparr> trackId = trackId',
                             message = msg,
                             priority = announcePriority,
                             isCritical = (level = VERY_CLOSE \<or> (risk = HIGH \<and> level = NEAR)) \<rparr> \<rparr>
                    else c2))"

text \<open>The loop over the sorted batch, from the store of the engine.\<close>

definition runLoop :: "engine \<Rightarrow> int \<Rightarrow> detection list \<Rightarrow> cycle" where
  "runLoop st now detections =
     foldl (processOne now)
       \<lparr> c_objectState = objectState st, c_currentIds = {}, c_announcement = None \<rparr>
       (sortDetections detections)"

text \<open>The sweep \<open>for (const [id, state] of objectState)\<close> that deletes stale tracks.\<close>

definition cleanup :: "int \<Rightarrow> jsid set \<Rightarrow> (jsid \<Rightarrow> tracked option) \<Rightarrow> (jsid \<Rightarrow> tracked option)" where
  "cleanup now currentIds os =
     (\<lambda>id. case os id of
              None \<Rightarrow> None
            | Some state \<Rightarrow>
                if id \<notin> currentIds \<and> 5000 < now - os_lastSeen state then None else Some state)"

text \<open>
  \<open>processDetections(detections)\<close>. The function reads the clock itself (\<open>now\<close>) and
  \<open>speak\<close> reads it again (\<open>nowSpeak\<close>).
\<close>

definition processDetections :: "engine \<Rightarrow> int \<Rightarrow> int \<Rightarrow> detection list \<Rightarrow> engine" where
  "processDetections st now nowSpeak detections =
     (if \<not> voiceActive st \<or> \<not> voiceReady st \<or> length detections = 0 then st
      else
        let c = runLoop st now detections;
            st1 = st\<lparr> objectState := cleanup now (c_currentIds c) (c_objectState c) \<rparr>
        in (case c_announcement c of
              None \<Rightarrow> st1
            | Some ann \<Rightarrow>
                let (spoken, st2) =
                      speak st1 nowSpeak (message ann)
                        (if isCritical ann then ''critical'' else ''normal'')
                in if spoken then
                     (case objectState st2 (trackId ann) of
                        None \<Rightarrow> st2
                      | Some state \<Rightarrow>
                          st2\<lparr> objectState := (objectState st2)(trackId ann \<mapsto>
                                 state\<lparr> os_lastAnnounced := now \<rparr>) \<rparr>)
                   else st2))"

subsection \<open>The motion rule of the specification\<close>

text \<open>
  The motion rule as the specification words it, on the history of areas: fewer than two
  samples are stationary; two samples give the ratio of the second to the first; three or
  more give the mean of the last two over the mean of all earlier ones; a ratio of at
  least 1.05 is approaching, one of at most 0.95 receding, anything else stationary.
  First read with the sums and quotients of the language, where a ratio can be \<open>NaN\<close> and
  then is neither at least 1.05, nor at most 0.95, nor in between.
\<close>

datatype motion = Approaching | Receding | Stationary

fun motion_flags :: "motion \<Rightarrow> motion_status" where
  "motion_flags Approaching = \<lparr> isApproaching = True, isReceding = False, isStationary = False \<rparr>"
| "motion_flags Receding = \<lparr> isApproaching = False, isReceding = True, isStationary = False \<rparr>"
| "motion_flags Stationary = \<lparr> isApproaching = False, isReceding = False, isStationary = True \<rparr>"

definition spec_mean :: "real list \<Rightarrow> jsnum" where
  "spec_mean xs = jsdiv (sumOf xs) (Fin (real (length xs)))"

definition spec_ratio :: "real list \<Rightarrow> jsnum" where
  "spec_ratio h =
     (if length h = 2 then jsdiv (Fin (h ! 1)) (Fin (h ! 0))
      else jsdiv (spec_mean (drop (length h - 2) h)) (spec_mean (take (length h - 2) h)))"

definition spec_status :: "real list \<Rightarrow> motion_status" where
  "spec_status h =
     (if length h < 2 then motion_flags Stationary
      else if jsge (spec_ratio h) approachThreshold then motion_flags Approaching
      else if jsle (spec_ratio h) recedeThreshold then motion_flags Receding
      else if spec_ratio h = NaN
      then \<lparr> isApproaching = False, isReceding = False, isStationary = False \<rparr>
      else motion_flags Stationary)"

text \<open>Then read with exact arithmetic and the decimal thresholds.\<close>

definition exact_mean :: "real list \<Rightarrow> real" where
  "exact_mean xs = sum_list xs / real (length xs)"

definition exact_ratio :: "real list \<Rightarrow> real" where
  "exact_ratio h =
     (if length h = 2 then h ! 1 / h ! 0
      else exact_mean (drop (length h - 2) h) / exact_mean (take (length h - 2) h))"

definition exact_motion :: "real list \<Rightarrow> motion" where
  "exact_motion h =
     (if length h < 2 then Stationary
      else if 1.05 \<le> exact_ratio h then Approaching
      else if exact_ratio h \<le> 0.95 then Receding
      else Stationary)"

subsection \<open>Views of a cycle used in the properties\<close>

text \<open>The tiers of a detection, as the loop computes them.\<close>

definition levelOf :: "detection \<Rightarrow> distance_level" where
  "levelOf det = getDistanceLevel (distanceOf det)"

definition riskOf :: "detection \<Rightarrow> risk_category" where
  "riskOf det = getRiskCategory (det_class det)"

text \<open>
  The order of the sort as the specification words it, risk priority descending and then
  distance ascending, and the detections that share a risk priority and a distance.
\<close>

definition inSortOrder :: "detection \<Rightarrow> detection \<Rightarrow> bool" where
  "inSortOrder a b =
     (risk_priority (riskOf b) < risk_priority (riskOf a)
      \<or> (risk_priority (riskOf a) = risk_priority (riskOf b) \<and> distanceOf a \<le> distanceOf b))"

definition hasSortKey :: "int \<Rightarrow> real \<Rightarrow> detection \<Rightarrow> bool" where
  "hasSortKey r m d = (risk_priority (riskOf d) = r \<and> distanceOf d = m)"

text \<open>
  One detection taken alone: the candidate announcement the loop body builds for it when no
  announcement has been retained yet, and the store the loop body leaves, both read off
  \<open>processOne\<close>; and the candidates of a batch in the order of the loop, each built against
  the store its predecessors left.
\<close>

definition freshCycle :: "(jsid \<Rightarrow> tracked option) \<Rightarrow> cycle" where
  "freshCycle os = \<lparr> c_objectState = os, c_currentIds = {}, c_announcement = None \<rparr>"

definition candidateOf :: "int \<Rightarrow> (jsid \<Rightarrow> tracked option) \<Rightarrow> detection \<Rightarrow> announcement option" where
  "candidateOf now os det = c_announcement (processOne now (freshCycle os) det)"

definition storeAfter :: "int \<Rightarrow> (jsid \<Rightarrow> tracked option) \<Rightarrow> detection \<Rightarrow> (jsid \<Rightarrow> tracked option)" where
  "storeAfter now os det = c_objectState (processOne now (freshCycle os) det)"

fun candidates :: "int \<Rightarrow> (jsid \<Rightarrow> tracked option) \<Rightarrow> detection list \<Rightarrow> announcement list" where
  "candidates now os [] = []"
| "candidates now os (d # ds) =
     (case candidateOf now os d of None \<Rightarrow> [] | Some a \<Rightarrow> [a]) @ candidates now (storeAfter now os d) ds"

text \<open>
  The time an identity was last announced, 0 for an identity not in the store; the size
  history an identity has before a detection, empty for a new identity; the store after
  the sweep of a cycle that runs; and the utterance \<open>speak\<close> builds for a text.
\<close>

definition lastAnn :: "(jsid \<Rightarrow> tracked option) \<Rightarrow> jsid \<Rightarrow> int" where
  "lastAnn os k = (case os k of None \<Rightarrow> 0 | Some p \<Rightarrow> os_lastAnnounced p)"

definition historyOf :: "tracked option \<Rightarrow> real list" where
  "historyOf prev = (case prev of None \<Rightarrow> [] | Some p \<Rightarrow> os_bboxSizes p)"

definition sweptStore :: "engine \<Rightarrow> int \<Rightarrow> detection list \<Rightarrow> (jsid \<Rightarrow> tracked option)" where
  "sweptStore st now dets =
     cleanup now (c_currentIds (runLoop st now dets)) (c_objectState (runLoop st now dets))"

definition utteranceOf :: "engine \<Rightarrow> string \<Rightarrow> utterance" where
  "utteranceOf st text =
     \<lparr> u_text = text,
       u_rate = (if voiceSpeed st \<noteq> 0 then voiceSpeed st else configRate),
       u_pitch = configPitch, u_volume = configVolume, u_voice = preferredVoice st \<rparr>"

text \<open>
  Names for the parts of the loop body, used to reason about it: the size history after
  the detection, the motion verdict, the record stored, the announce test, the candidate
  proposed, the store after the step, and the rule that retains a candidate.
  Lemma \<open>processOne_view\<close> below proves that they put together are \<open>processOne\<close>.
\<close>

definition sizesOf :: "tracked option \<Rightarrow> detection \<Rightarrow> real list" where
  "sizesOf prev det =
     (let bboxSizes0 = (case prev of None \<Rightarrow> [] | Some p \<Rightarrow> os_bboxSizes p)
      in case getBboxSize det of
           None \<Rightarrow> bboxSizes0
         | Some area \<Rightarrow>
             if 0 < area then
               (let pushed = bboxSizes0 @ [area]
                in if sizeHistoryLength < length pushed
                   then drop (length pushed - sizeHistoryLength) pushed
                   else pushed)
             else bboxSizes0)"

definition motionOf :: "tracked option \<Rightarrow> detection \<Rightarrow> motion_status" where
  "motionOf prev det = calculateMotionStatus (Some (sizesOf prev det))"

definition recordOf :: "int \<Rightarrow> tracked option \<Rightarrow> detection \<Rightarrow> tracked" where
  "recordOf now prev det =
     \<lparr> os_level = levelOf det,
       os_risk = riskOf det,
       os_class = det_class det,
       os_position = positionOf det,
       os_distance = distanceOf det,
       os_bboxSizes = sizesOf prev det,
       os_isApproaching = isApproaching (motionOf prev det),
       os_isStationary = isStationary (motionOf prev det),
       os_lastSeen = now,
       os_lastAnnounced = (case prev of None \<Rightarrow> 0 | Some p \<Rightarrow> os_lastAnnounced p) \<rparr>"

definition shouldAnnounceOf :: "int \<Rightarrow> tracked option \<Rightarrow> detection \<Rightarrow> bool" where
  "shouldAnnounceOf now prev det =
     ((prev = None
       \<or> (prev \<noteq> None \<and> map_option os_level prev \<noteq> Some (levelOf det))
       \<or> (prev \<noteq> None \<and> map_option os_risk prev \<noteq> Some (riskOf det))
       \<or> ((prev \<noteq> None \<and>
            (case prev of None \<Rightarrow> False | Some p \<Rightarrow> os_isApproaching p)
              \<noteq> isApproaching (motionOf prev det))
          \<and> isApproaching (motionOf prev det)))
      \<and> (case prev of
            None \<Rightarrow> True
          | Some p \<Rightarrow> os_lastAnnounced p = 0 \<or> perObjectCooldown < now - os_lastAnnounced p))"

definition proposal :: "int \<Rightarrow> tracked option \<Rightarrow> detection \<Rightarrow> announcement option" where
  "proposal now prev det =
     (if levelOf det = CLEAR \<or> \<not> shouldAnnounceOf now prev det then None
      else
        (case buildSmartMessage (det_class det) (riskOf det) (levelOf det) (positionOf det)
                (Some (motionOf prev det)) of
           None \<Rightarrow> None
         | Some msg \<Rightarrow>
             if msg = [] then None
             else Some \<lparr> trackId = trackIdOf det,
                         message = msg,
                         priority = level_priority (levelOf det) * 10 + risk_priority (riskOf det),
                         isCritical = (levelOf det = VERY_CLOSE
                                        \<or> (riskOf det = HIGH \<and> levelOf det = NEAR)) \<rparr>))"

definition storeStep :: "int \<Rightarrow> (jsid \<Rightarrow> tracked option) \<Rightarrow> detection \<Rightarrow> (jsid \<Rightarrow> tracked option)" where
  "storeStep now os d =
     (if levelOf d = CLEAR then os else os(trackIdOf d \<mapsto> recordOf now (os (trackIdOf d)) d))"

fun better :: "announcement option \<Rightarrow> announcement option \<Rightarrow> announcement option" where
  "better best None = best"
| "better None (Some a) = Some a"
| "better (Some b) (Some a) = (if priority b < priority a then Some a else Some b)"

fun pick :: "announcement option \<Rightarrow> announcement list \<Rightarrow> announcement option" where
  "pick best [] = best"
| "pick best (a # as) = pick (better best (Some a)) as"

subsection \<open>Example inputs\<close>

text \<open>
  Engines: right after start-up (voice on and loaded, nothing queued, nothing tracked);
  one that is speaking and last spoke at 19000; one that tracks a person at FAR range and
  last spoke at 15000; one whose store holds a car last seen at time 0.
\<close>

definition readyEngine :: engine where
  "readyEngine =
     \<lparr> voiceActive = True, voiceReady = True, voiceSpeed = 0, preferredVoice = None,
       speechSynthesis = Some [], lastSpeechTime = 0, objectState = (\<lambda>_. None) \<rparr>"

definition busyEngine :: engine where
  "busyEngine =
     readyEngine\<lparr> speechSynthesis := Some [utteranceOf readyEngine ''Guidance ready.''],
                  lastSpeechTime := 19000 \<rparr>"

definition personFarRecord :: tracked where
  "personFarRecord =
     \<lparr> os_level = FAR, os_risk = MEDIUM, os_class = ''person'', os_position = ''center'',
       os_distance = 5, os_bboxSizes = [1000], os_isApproaching = False, os_isStationary = True,
       os_lastSeen = 18000, os_lastAnnounced = 3000 \<rparr>"

definition trackingEngine :: engine where
  "trackingEngine =
     readyEngine\<lparr> lastSpeechTime := 15000,
                  objectState := (\<lambda>_. None)(IdStr ''person_c'' \<mapsto> personFarRecord) \<rparr>"

definition staleCarRecord :: tracked where
  "staleCarRecord =
     \<lparr> os_level = NEAR, os_risk = HIGH, os_class = ''car'', os_position = ''center'',
       os_distance = 2, os_bboxSizes = [1000], os_isApproaching = False, os_isStationary = True,
       os_lastSeen = 0, os_lastAnnounced = 0 \<rparr>"

definition staleEngine :: engine where
  "staleEngine = readyEngine\<lparr> objectState := (\<lambda>_. None)(IdStr ''car_c'' \<mapsto> staleCarRecord) \<rparr>"

text \<open>
  Detections without track id and position: a car at 2 m and a person at 1 m with boxes, a
  person at 2 m without a box, a car at 8 m (beyond the useful range), a car at exactly
  0 m, and a car at 2 m with a box of area 1000, with a box of area 1060, with no box and
  with a box array of two numbers.
\<close>

definition plainDetection :: "string \<Rightarrow> real \<Rightarrow> detection" where
  "plainDetection cls meters =
     \<lparr> det_class = cls, det_track_id = None, det_position = None,
       det_distance_m = Some meters, det_bbox = None,
       det_x1 = None, det_y1 = None, det_x2 = None, det_y2 = None,
       det_width = None, det_height = None \<rparr>"

definition carNear :: detection where
  "carNear = (plainDetection ''car'' 2)\<lparr> det_bbox := Some [0, 0, 100, 100] \<rparr>"

definition personClose :: detection where
  "personClose = (plainDetection ''person'' 1)\<lparr> det_bbox := Some [0, 0, 50, 100] \<rparr>"

definition personNear :: detection where
  "personNear = plainDetection ''person'' 2"

definition carBeyond :: detection where
  "carBeyond = plainDetection ''car'' 8"

definition carAtZero :: detection where
  "carAtZero = (plainDetection ''car'' 0)\<lparr> det_bbox := Some [0, 0, 100, 100] \<rparr>"

definition carSmallBox :: detection where
  "carSmallBox = (plainDetection ''car'' 2)\<lparr> det_bbox := Some [0, 0, 100, 10] \<rparr>"

definition carLargerBox :: detection where
  "carLargerBox = (plainDetection ''car'' 2)\<lparr> det_bbox := Some [0, 0, 106, 10] \<rparr>"

definition carNoBox :: detection where
  "carNoBox = plainDetection ''car'' 2"

definition carShortBox :: detection where
  "carShortBox = (plainDetection ''car'' 2)\<lparr> det_bbox := Some [0, 0] \<rparr>"

text \<open>Two persons at NEAR range, the farther on the left, the nearer on the right.\<close>

definition personLeftFar :: detection where
  "personLeftFar = (plainDetection ''person'' 2.5)\<lparr> det_position := Some ''left'' \<rparr>"

definition personRightNear :: detection where
  "personRightNear = (plainDetection ''person'' 1.5)\<lparr> det_position := Some ''right'' \<rparr>"

section \<open>Properties\<close>

subsection \<open>The message builder at distance VERY\_CLOSE\<close>

text \<open>
  Claim C1. For every object class, risk tier, motion status (also an absent one) and
  position, \<open>buildSmartMessage\<close> called with the distance tier VERY\_CLOSE returns a message,
  never \<open>null\<close>; the message is not the empty string either, which the scheduler would
  treat as silence.
\<close>

theorem buildSmartMessage_VERY_CLOSE_speaks:
  "\<exists>msg. buildSmartMessage objectClass risk VERY_CLOSE position motionStatus = Some msg
     \<and> msg \<noteq> []"
  by (simp add: buildSmartMessage_def Let_def)

theorem buildSmartMessage_VERY_CLOSE_speaks_witness:
  "\<exists>msg. buildSmartMessage ''person'' MEDIUM VERY_CLOSE ''left''
      (Some \<lparr> isApproaching = False, isReceding = False, isStationary = True \<rparr>) = Some msg
     \<and> msg \<noteq> []"
  using buildSmartMessage_VERY_CLOSE_speaks [of "''person''" MEDIUM "''left''"
      "Some \<lparr> isApproaching = False, isReceding = False, isStationary = True \<rparr>"]
  by simp

subsection \<open>The dispatcher and the global cooldown\<close>

text \<open>
  Claim C2, as stated, says that \<open>speak\<close> returns false exactly when the priority is
  normal and fewer than 8000 ms have passed since \<open>lastSpeechTime\<close>, and that a critical
  dispatch always returns true. The first line of \<open>speak\<close> is a guard of its own: with the
  voice switched off, a critical dispatch returns false.
\<close>

theorem speak_critical_voice_off_counterexample:
  "fst (speak (readyEngine\<lparr> voiceActive := False \<rparr>) 9000
          ''Stop. Vehicle very close.'' ''critical'') = False"
  by (simp add: speak_def readyEngine_def)

text \<open>
  Claim C2, amended. \<open>speak\<close> returns false exactly when the voice is off, or the browser
  has no speech synthesis, or the text is empty, or the priority is not \<open>'critical'\<close> and
  fewer than 8000 ms have passed since \<open>lastSpeechTime\<close>. So with the voice off, no
  synthesizer or an empty text every dispatch, a critical one included, returns false and
  changes nothing. When the voice is on, the browser has speech synthesis and the text is
  not empty, \<open>speak\<close> returns false exactly when the priority is not \<open>'critical'\<close> and
  fewer than 8000 ms have passed since \<open>lastSpeechTime\<close>: a critical dispatch returns true
  whatever the elapsed time, and after a normal dispatch that succeeded at \<open>t0\<close> a normal
  one at \<open>t0 + 5000\<close> is suppressed and one at \<open>t0 + 8001\<close> succeeds.
\<close>

theorem speak_suppressed_iff:
  "(fst (speak st now words prio) = False) =
      (\<not> voiceActive st \<or> speechSynthesis st = None \<or> words = []
       \<or> (prio \<noteq> ''critical'' \<and> now - lastSpeechTime st < 8000))
   \<and> (\<not> voiceActive st \<or> speechSynthesis st = None \<or> words = [] \<longrightarrow>
        speak st now words prio = (False, st))
   \<and> (voiceActive st \<and> speechSynthesis st \<noteq> None \<and> words \<noteq> [] \<longrightarrow>
        (fst (speak st now words prio) = False) =
           (prio \<noteq> ''critical'' \<and> now - lastSpeechTime st < 8000)
        \<and> fst (speak st now words ''critical'')
        \<and> (fst (speak st start words ''normal'') \<longrightarrow>
             \<not> fst (speak (snd (speak st start words ''normal'')) (start + 5000) words ''normal'')
           \<and> fst (speak (snd (speak st start words ''normal'')) (start + 8001) words ''normal'')))"
proof -
  have full: "(fst (speak st now words prio) = False) =
      (\<not> voiceActive st \<or> speechSynthesis st = None \<or> words = []
       \<or> (prio \<noteq> ''critical'' \<and> now - lastSpeechTime st < 8000))"
    by (simp add: speak_def Let_def globalCooldown_def)
  have guard: "speak st now words prio = (False, st)"
    if "\<not> voiceActive st \<or> speechSynthesis st = None \<or> words = []"
    using that by (auto simp add: speak_def)
  have open_channel: "(fst (speak st now words prio) = False) =
           (prio \<noteq> ''critical'' \<and> now - lastSpeechTime st < 8000)
        \<and> fst (speak st now words ''critical'')
        \<and> (fst (speak st start words ''normal'') \<longrightarrow>
             \<not> fst (speak (snd (speak st start words ''normal'')) (start + 5000) words ''normal'')
           \<and> fst (speak (snd (speak st start words ''normal'')) (start + 8001) words ''normal''))"
    if "voiceActive st \<and> speechSynthesis st \<noteq> None \<and> words \<noteq> []"
    using that by (simp add: speak_def Let_def globalCooldown_def)
  from full guard open_channel show ?thesis by blast
qed

theorem speak_suppressed_iff_witness:
  "fst (speak readyEngine 8000 ''Guidance ready.'' ''normal'')
   \<and> \<not> fst (speak (snd (speak readyEngine 8000 ''Guidance ready.'' ''normal'')) 13000
              ''Guidance ready.'' ''normal'')
   \<and> fst (speak (snd (speak readyEngine 8000 ''Guidance ready.'' ''normal'')) 16001
            ''Guidance ready.'' ''normal'')
   \<and> fst (speak (snd (speak readyEngine 8000 ''Guidance ready.'' ''normal'')) 9000
            ''Guidance ready.'' ''critical'')
   \<and> speak (readyEngine\<lparr> voiceActive := False \<rparr>) 9000 ''Guidance ready.'' ''critical''
        = (False, readyEngine\<lparr> voiceActive := False \<rparr>)"
proof -
  let ?st1 = "snd (speak readyEngine 8000 ''Guidance ready.'' ''normal'')"
  let ?off = "readyEngine\<lparr> voiceActive := False \<rparr>"
  have a: "voiceActive readyEngine \<and> speechSynthesis readyEngine \<noteq> None
      \<and> ''Guidance ready.'' \<noteq> []"
    by (simp add: readyEngine_def)
  have b: "voiceActive ?st1 \<and> speechSynthesis ?st1 \<noteq> None \<and> ''Guidance ready.'' \<noteq> []"
    by (simp add: readyEngine_def speak_def Let_def globalCooldown_def)
  have l: "\<not> (''normal'' \<noteq> ''critical'' \<and> 8000 - lastSpeechTime readyEngine < 8000)"
    by (simp add: readyEngine_def)
  have o: "\<not> voiceActive ?off \<or> speechSynthesis ?off = None \<or> ''Guidance ready.'' = []"
    by simp
  from speak_suppressed_iff
    [where st = readyEngine and words = "''Guidance ready.''" and now = 8000
      and prio = "''normal''" and start = 8000] a l
  have first: "fst (speak readyEngine 8000 ''Guidance ready.'' ''normal'')"
    and later: "\<not> fst (speak ?st1 (8000 + 5000) ''Guidance ready.'' ''normal'')
      \<and> fst (speak ?st1 (8000 + 8001) ''Guidance ready.'' ''normal'')"
    by blast+
  from speak_suppressed_iff
    [where st = ?st1 and words = "''Guidance ready.''" and now = 9000 and prio = "''critical''"] b
  have crit: "fst (speak ?st1 9000 ''Guidance ready.'' ''critical'')"
    by blast
  from speak_suppressed_iff
    [where st = ?off and words = "''Guidance ready.''" and now = 9000 and prio = "''critical''"] o
  have off: "speak ?off 9000 ''Guidance ready.'' ''critical'' = (False, ?off)"
    by blast
  from first later crit off show ?thesis by simp
qed

subsection \<open>Motion inference\<close>

text \<open>Unfolding rules that evaluate the rounding on numerals.\<close>

lemmas fl_eval = fl_def binade_def roundHalfEven_def normDown.simps normUp.simps Let_def

text \<open>
  The rounding on a decimal fraction, at ties (to the even neighbour), at the overflow
  threshold and among the subnormal numbers.
\<close>

lemma fl_ties:
  "fl (1 / 10) = Fin (3602879701896397 / 36028797018963968)"
  "fl (2 ^ 53 + 1) = Fin (2 ^ 53)"
  "fl (2 ^ 53 + 3) = Fin (2 ^ 53 + 4)"
  "fl (- (2 ^ 53 + 1)) = Fin (- (2 ^ 53))"
  by (simp_all add: fl_eval)

lemma fl_range:
  "fl (2 ^ 1024) = PosInf"
  "fl (2 ^ 1024 - 2 ^ 970) = PosInf"
  "fl (2 ^ 1024 - 2 ^ 971) = Fin (2 ^ 1024 - 2 ^ 971)"
  "fl (- (2 ^ 1024)) = NegInf"
  by (simp_all add: fl_eval)

lemma fl_tiny:
  "fl (1 / 2 ^ 1075) = Fin 0"
  "fl (3 / 2 ^ 1075) = Fin (1 / 2 ^ 1073)"
  "fl (1 / 2 ^ 1074) = Fin (1 / 2 ^ 1074)"
  by (simp_all add: fl_eval)

lemma thresholds_are_the_literals:
  "fl (105 / 100) = Fin approachThreshold \<and> fl (95 / 100) = Fin recedeThreshold"
  by (simp add: fl_eval approachThreshold_def recedeThreshold_def)

lemma verdict_cases:
  "verdict r =
     (if jsge r approachThreshold then motion_flags Approaching
      else if jsle r recedeThreshold then motion_flags Receding
      else if r = NaN then \<lparr> isApproaching = False, isReceding = False, isStationary = False \<rparr>
      else motion_flags Stationary)"
proof -
  have lt: "recedeThreshold < approachThreshold"
    by (simp add: approachThreshold_def recedeThreshold_def)
  show ?thesis
    using lt by (cases r) (auto simp: verdict_def)
qed

lemma calculateMotionStatus_short:
  "length h < 2 \<Longrightarrow> calculateMotionStatus (Some h) = motion_flags Stationary"
  by (simp add: calculateMotionStatus_def minSamples_def)

lemma calculateMotionStatus_ratio:
  assumes "\<not> length h < 2"
  shows "calculateMotionStatus (Some h) = verdict (spec_ratio h)"
proof (cases "length h = 2")
  case True
  then show ?thesis
    by (simp add: calculateMotionStatus_def minSamples_def spec_ratio_def)
next
  case False
  with assms have "h \<noteq> []" and "length h - 2 \<noteq> 0" by auto
  with assms False show ?thesis
    by (simp add: calculateMotionStatus_def minSamples_def spec_ratio_def spec_mean_def Let_def)
qed

text \<open>The verdicts of two histories that the examples below run into.\<close>

lemma motion_examples:
  "calculateMotionStatus (Some [1000, 1060]) = motion_flags Approaching"
  "calculateMotionStatus (Some [1000, 10000]) = motion_flags Approaching"
  by (simp_all add: calculateMotionStatus_def minSamples_def verdict_def fl_eval
      approachThreshold_def recedeThreshold_def)

text \<open>
  Claim C7, as stated, reads the ratio as the quotient of the means and says that the
  verdict is approaching exactly when it is at least 1.05 and stationary whenever it is
  neither that nor at most 0.95. On the history [1021, 1026, 1033, 1078, 1078] the exact
  ratio is 1.05, yet the script, dividing in binary64, finds a ratio below its threshold
  and returns stationary. On [0, 0] the ratio is 0/0, and the script sets no flag at all,
  not the stationary one.
\<close>

theorem motion_rounding_and_nan_counterexample:
  "exact_ratio [1021, 1026, 1033, 1078, 1078] = 1.05
   \<and> exact_motion [1021, 1026, 1033, 1078, 1078] = Approaching
   \<and> calculateMotionStatus (Some [1021, 1026, 1033, 1078, 1078]) = motion_flags Stationary
   \<and> calculateMotionStatus (Some [0, 0])
       = \<lparr> isApproaching = False, isReceding = False, isStationary = False \<rparr>"
  by (simp add: exact_motion_def exact_ratio_def exact_mean_def calculateMotionStatus_def
      minSamples_def sumOf_def verdict_def fl_eval approachThreshold_def recedeThreshold_def)

text \<open>
  Claim C7, amended. \<open>calculateMotionStatus\<close> implements exactly: fewer than two samples
  (or no history) are stationary; two samples give the ratio of the second to the first;
  three or more give the mean of the last two over the mean of all earlier ones, every
  sum and quotient being the rounded binary64 operation of the language. The verdict is
  approaching iff the ratio is at least the double 1.05, receding iff it is at most the
  double 0.95, stationary iff it lies strictly between; when the ratio is \<open>NaN\<close> no flag
  is set. The histories [1000, 1060], [1000, 950] and [1000, 1020] classify as
  approaching, receding and stationary, and [1021, 1026, 1033, 1078, 1078] as stationary.
\<close>

theorem calculateMotionStatus_spec:
  "calculateMotionStatus (Some h) = spec_status h
   \<and> calculateMotionStatus None = motion_flags Stationary
   \<and> (\<not> length h < 2 \<longrightarrow>
        isApproaching (calculateMotionStatus (Some h)) = jsge (spec_ratio h) approachThreshold
        \<and> isReceding (calculateMotionStatus (Some h)) = jsle (spec_ratio h) recedeThreshold
        \<and> isStationary (calculateMotionStatus (Some h))
            = (jsgt (spec_ratio h) recedeThreshold \<and> jslt (spec_ratio h) approachThreshold))
   \<and> fl (105 / 100) = Fin approachThreshold \<and> fl (95 / 100) = Fin recedeThreshold
   \<and> calculateMotionStatus (Some [1000, 1060]) = motion_flags Approaching
   \<and> calculateMotionStatus (Some [1000, 950]) = motion_flags Receding
   \<and> calculateMotionStatus (Some [1000, 1020]) = motion_flags Stationary
   \<and> calculateMotionStatus (Some [1021, 1026, 1033, 1078, 1078]) = motion_flags Stationary"
proof -
  have gen: "calculateMotionStatus (Some h) = spec_status h"
  proof (cases "length h < 2")
    case True
    then show ?thesis by (simp add: calculateMotionStatus_short spec_status_def)
  next
    case False
    then show ?thesis
      by (simp add: calculateMotionStatus_ratio spec_status_def verdict_cases)
  qed
  have none: "calculateMotionStatus None = motion_flags Stationary"
    by (simp add: calculateMotionStatus_def)
  have flags: "isApproaching (calculateMotionStatus (Some h)) = jsge (spec_ratio h) approachThreshold
        \<and> isReceding (calculateMotionStatus (Some h)) = jsle (spec_ratio h) recedeThreshold
        \<and> isStationary (calculateMotionStatus (Some h))
            = (jsgt (spec_ratio h) recedeThreshold \<and> jslt (spec_ratio h) approachThreshold)"
    if "\<not> length h < 2"
    using that by (simp add: calculateMotionStatus_ratio verdict_def)
  note ev = calculateMotionStatus_def minSamples_def sumOf_def verdict_def fl_eval
    approachThreshold_def recedeThreshold_def
  have e1: "calculateMotionStatus (Some [1000, 1060]) = motion_flags Approaching"
    by (simp add: ev)
  have e2: "calculateMotionStatus (Some [1000, 950]) = motion_flags Receding"
    by (simp add: ev)
  have e3: "calculateMotionStatus (Some [1000, 1020]) = motion_flags Stationary"
    by (simp add: ev)
  have e4: "calculateMotionStatus (Some [1021, 1026, 1033, 1078, 1078]) = motion_flags Stationary"
    by (simp add: ev)
  from gen none flags thresholds_are_the_literals e1 e2 e3 e4 show ?thesis by blast
qed

theorem calculateMotionStatus_spec_witness:
  "calculateMotionStatus (Some [900, 1000, 1100, 1150]) = motion_flags Approaching
   \<and> isApproaching (calculateMotionStatus (Some [900, 1000, 1100, 1150]))"
proof -
  have r: "spec_ratio [900, 1000, 1100, 1150] = Fin (666651260630501 / 562949953421312)"
    by (simp add: spec_ratio_def spec_mean_def sumOf_def fl_eval)
  have l: "\<not> length [900, 1000, 1100, 1150 :: real] < 2" by simp
  have s: "spec_status [900, 1000, 1100, 1150] = motion_flags Approaching"
    by (simp add: spec_status_def r approachThreshold_def)
  have g: "jsge (spec_ratio [900, 1000, 1100, 1150]) approachThreshold"
    by (simp add: r approachThreshold_def)
  from calculateMotionStatus_spec [of "[900, 1000, 1100, 1150]"] l s g show ?thesis
    by simp
qed

subsection \<open>The loop body and the loop\<close>

lemma processOne_CLEAR:
  "levelOf d = CLEAR \<Longrightarrow>
   processOne now c d = c\<lparr> c_currentIds := insert (trackIdOf d) (c_currentIds c) \<rparr>"
  by (simp add: processOne_def levelOf_def Let_def)

lemma processOne_in_range:
  assumes "levelOf d \<noteq> CLEAR"
  shows "processOne now c d =
     \<lparr> c_objectState = (c_objectState c)(trackIdOf d \<mapsto> recordOf now (c_objectState c (trackIdOf d)) d),
       c_currentIds = insert (trackIdOf d) (c_currentIds c),
       c_announcement = better (c_announcement c) (proposal now (c_objectState c (trackIdOf d)) d) \<rparr>"
proof -
  let ?prev = "c_objectState c (trackIdOf d)"
  have nc: "getDistanceLevel (distanceOf d) \<noteq> CLEAR" using assms by (simp add: levelOf_def)
  note defs = shouldAnnounceOf_def recordOf_def motionOf_def sizesOf_def levelOf_def riskOf_def
  let ?msg = "buildSmartMessage (det_class d) (riskOf d) (levelOf d) (positionOf d)
                (Some (motionOf ?prev d))"
  show ?thesis
  proof (cases "shouldAnnounceOf now ?prev d")
    case False
    then have p: "proposal now ?prev d = None" by (simp add: proposal_def)
    show ?thesis
      unfolding p better.simps
      using False nc unfolding processOne_def defs Let_def
      by (simp split del: if_split cong: if_cong)
  next
    case sa: True
    show ?thesis
    proof (cases ?msg)
      case None
      then have p: "proposal now ?prev d = None" by (simp add: proposal_def)
      show ?thesis
        unfolding p better.simps
        using sa None nc unfolding processOne_def defs Let_def
        by (simp split del: if_split cong: if_cong)
    next
      case (Some msg)
      show ?thesis
      proof (cases "msg = []")
        case True
        with Some have p: "proposal now ?prev d = None" by (simp add: proposal_def)
        show ?thesis
          unfolding p better.simps
          using sa Some True nc unfolding processOne_def defs Let_def
          by (simp split del: if_split cong: if_cong)
      next
        case False
        with Some sa assms have p: "proposal now ?prev d =
            Some \<lparr> trackId = trackIdOf d, message = msg,
                   priority = level_priority (levelOf d) * 10 + risk_priority (riskOf d),
                   isCritical = (levelOf d = VERY_CLOSE \<or> (riskOf d = HIGH \<and> levelOf d = NEAR)) \<rparr>"
          by (simp add: proposal_def)
        show ?thesis
        proof (cases "c_announcement c")
          case None
          show ?thesis
            unfolding p None better.simps
            using sa Some False nc None unfolding processOne_def defs Let_def
            by (simp split del: if_split cong: if_cong)
        next
          case (Some best)
          note b = this
          show ?thesis
          proof (cases "priority best < level_priority (levelOf d) * 10 + risk_priority (riskOf d)")
            case True
            show ?thesis
              unfolding p b better.simps
              using sa \<open>?msg = Some msg\<close> False nc b True unfolding processOne_def defs Let_def
              by (simp split del: if_split cong: if_cong)
          next
            case nb: False
            show ?thesis
              unfolding p b better.simps
              using sa \<open>?msg = Some msg\<close> False nc b nb unfolding processOne_def defs Let_def
              by (simp split del: if_split cong: if_cong)
          qed
        qed
      qed
    qed
  qed
qed

lemma better_None_left: "better None p = p"
  by (cases p) simp_all

lemma proposal_CLEAR: "levelOf d = CLEAR \<Longrightarrow> proposal now prev d = None"
  by (simp add: proposal_def)

lemma processOne_view:
  "processOne now c d =
     \<lparr> c_objectState = storeStep now (c_objectState c) d,
       c_currentIds = insert (trackIdOf d) (c_currentIds c),
       c_announcement = better (c_announcement c) (proposal now (c_objectState c (trackIdOf d)) d) \<rparr>"
proof (cases "levelOf d = CLEAR")
  case True
  then show ?thesis
    by (simp add: processOne_CLEAR proposal_CLEAR storeStep_def)
next
  case False
  then show ?thesis
    by (simp add: processOne_in_range storeStep_def)
qed

lemma candidateOf_eq: "candidateOf now os d = proposal now (os (trackIdOf d)) d"
  by (simp add: candidateOf_def processOne_view freshCycle_def better_None_left)

lemma storeAfter_eq: "storeAfter now os d = storeStep now os d"
  by (simp add: storeAfter_def processOne_view freshCycle_def)

lemma storeAfter_fun: "storeAfter = storeStep"
  by (intro ext) (simp add: storeAfter_eq)

lemma loop_view:
  "foldl (processOne now) c ds =
     \<lparr> c_objectState = foldl (storeAfter now) (c_objectState c) ds,
       c_currentIds = c_currentIds c \<union> trackIdOf ` set ds,
       c_announcement = pick (c_announcement c) (candidates now (c_objectState c) ds) \<rparr>"
proof (induction ds arbitrary: c)
  case Nil
  show ?case by simp
next
  case (Cons d ds)
  have "foldl (processOne now) c (d # ds) = foldl (processOne now) (processOne now c d) ds"
    by simp
  also have "\<dots> = \<lparr> c_objectState = foldl (storeAfter now) (c_objectState (processOne now c d)) ds,
       c_currentIds = c_currentIds (processOne now c d) \<union> trackIdOf ` set ds,
       c_announcement = pick (c_announcement (processOne now c d))
          (candidates now (c_objectState (processOne now c d)) ds) \<rparr>"
    by (rule Cons.IH)
  also have "\<dots> = \<lparr> c_objectState = foldl (storeAfter now) (c_objectState c) (d # ds),
       c_currentIds = c_currentIds c \<union> trackIdOf ` set (d # ds),
       c_announcement = pick (c_announcement c) (candidates now (c_objectState c) (d # ds)) \<rparr>"
    by (cases "proposal now (c_objectState c (trackIdOf d)) d")
       (simp_all add: processOne_view storeAfter_eq candidateOf_eq)
  finally show ?case .
qed

lemma pick_None_iff: "pick best cs = None \<longleftrightarrow> best = None \<and> cs = []"
proof (induction cs arbitrary: best)
  case Nil
  show ?case by simp
next
  case (Cons a cs)
  show ?case by (cases best) (simp_all add: Cons.IH)
qed

lemma pick_Some_char:
  "pick (Some a0) cs = Some r \<Longrightarrow>
     (r = a0 \<and> (\<forall>b\<in>set cs. priority b \<le> priority a0))
     \<or> (\<exists>pre post. cs = pre @ r # post \<and> priority a0 < priority r
            \<and> (\<forall>b\<in>set pre. priority b < priority r)
            \<and> (\<forall>b\<in>set post. priority b \<le> priority r))"
proof (induction cs arbitrary: a0)
  case Nil
  then show ?case by simp
next
  case (Cons c cs)
  show ?case
  proof (cases "priority a0 < priority c")
    case True
    with Cons.prems have "pick (Some c) cs = Some r" by simp
    from Cons.IH [OF this] show ?thesis
    proof
      assume "r = c \<and> (\<forall>b\<in>set cs. priority b \<le> priority c)"
      then have "c # cs = [] @ r # cs \<and> priority a0 < priority r
          \<and> (\<forall>b\<in>set []. priority b < priority r) \<and> (\<forall>b\<in>set cs. priority b \<le> priority r)"
        using True by simp
      then show ?thesis by blast
    next
      assume "\<exists>pre post. cs = pre @ r # post \<and> priority c < priority r
            \<and> (\<forall>b\<in>set pre. priority b < priority r)
            \<and> (\<forall>b\<in>set post. priority b \<le> priority r)"
      then obtain pre post where h: "cs = pre @ r # post" "priority c < priority r"
        "\<forall>b\<in>set pre. priority b < priority r" "\<forall>b\<in>set post. priority b \<le> priority r"
        by blast
      then have "c # cs = (c # pre) @ r # post \<and> priority a0 < priority r
          \<and> (\<forall>b\<in>set (c # pre). priority b < priority r) \<and> (\<forall>b\<in>set post. priority b \<le> priority r)"
        using True by simp
      then show ?thesis by blast
    qed
  next
    case False
    with Cons.prems have "pick (Some a0) cs = Some r" by simp
    from Cons.IH [OF this] show ?thesis
    proof
      assume "r = a0 \<and> (\<forall>b\<in>set cs. priority b \<le> priority a0)"
      then show ?thesis using False by simp
    next
      assume "\<exists>pre post. cs = pre @ r # post \<and> priority a0 < priority r
            \<and> (\<forall>b\<in>set pre. priority b < priority r)
            \<and> (\<forall>b\<in>set post. priority b \<le> priority r)"
      then obtain pre post where h: "cs = pre @ r # post" "priority a0 < priority r"
        "\<forall>b\<in>set pre. priority b < priority r" "\<forall>b\<in>set post. priority b \<le> priority r"
        by blast
      then have "c # cs = (c # pre) @ r # post \<and> priority a0 < priority r
          \<and> (\<forall>b\<in>set (c # pre). priority b < priority r) \<and> (\<forall>b\<in>set post. priority b \<le> priority r)"
        using False by simp
      then show ?thesis by blast
    qed
  qed
qed

lemma pick_first_max:
  assumes "pick None cs = Some r"
  shows "\<exists>pre post. cs = pre @ r # post
            \<and> (\<forall>b\<in>set pre. priority b < priority r)
            \<and> (\<forall>b\<in>set post. priority b \<le> priority r)"
proof (cases cs)
  case Nil
  with assms show ?thesis by simp
next
  case (Cons c cs')
  with assms have "pick (Some c) cs' = Some r" by simp
  from pick_Some_char [OF this] show ?thesis
  proof
    assume "r = c \<and> (\<forall>b\<in>set cs'. priority b \<le> priority c)"
    then have "cs = [] @ r # cs' \<and> (\<forall>b\<in>set []. priority b < priority r)
        \<and> (\<forall>b\<in>set cs'. priority b \<le> priority r)"
      using Cons by simp
    then show ?thesis by blast
  next
    assume "\<exists>pre post. cs' = pre @ r # post \<and> priority c < priority r
            \<and> (\<forall>b\<in>set pre. priority b < priority r)
            \<and> (\<forall>b\<in>set post. priority b \<le> priority r)"
    then obtain pre post where h: "cs' = pre @ r # post" "priority c < priority r"
        "\<forall>b\<in>set pre. priority b < priority r" "\<forall>b\<in>set post. priority b \<le> priority r"
      by blast
    then have "cs = (c # pre) @ r # post \<and> (\<forall>b\<in>set (c # pre). priority b < priority r)
        \<and> (\<forall>b\<in>set post. priority b \<le> priority r)"
      using Cons by simp
    then show ?thesis by blast
  qed
qed

lemma storeStep_other: "k \<noteq> trackIdOf d \<Longrightarrow> storeStep now os d k = os k"
  by (simp add: storeStep_def)

lemma storeStep_lastAnn: "lastAnn (storeStep now os d) k = lastAnn os k"
  by (simp add: storeStep_def lastAnn_def recordOf_def)

lemma storeStep_keeps_seen:
  assumes "os k = Some r" and "os_lastSeen r = now"
  shows "\<exists>r'. storeStep now os d k = Some r' \<and> os_lastSeen r' = now"
  using assms by (simp add: storeStep_def recordOf_def)

lemma storeStep_keeps: "os k \<noteq> None \<Longrightarrow> storeStep now os d k \<noteq> None"
  by (simp add: storeStep_def)

lemma storeStep_seen:
  "levelOf d \<noteq> CLEAR \<Longrightarrow>
   \<exists>r. storeStep now os d (trackIdOf d) = Some r \<and> os_lastSeen r = now"
  by (simp add: storeStep_def recordOf_def)

lemma loopStore_other:
  "k \<notin> trackIdOf ` set ds \<Longrightarrow> foldl (storeStep now) os ds k = os k"
  by (induction ds arbitrary: os) (simp_all add: storeStep_other)

lemma loopStore_lastAnn: "lastAnn (foldl (storeStep now) os ds) k = lastAnn os k"
  by (induction ds arbitrary: os) (simp_all add: storeStep_lastAnn)

lemma loopStore_keeps_seen:
  "os k = Some r \<Longrightarrow> os_lastSeen r = now \<Longrightarrow>
   \<exists>r'. foldl (storeStep now) os ds k = Some r' \<and> os_lastSeen r' = now"
proof (induction ds arbitrary: os r)
  case Nil
  then show ?case by simp
next
  case (Cons d ds)
  have "\<exists>r'. storeStep now os d k = Some r' \<and> os_lastSeen r' = now"
    using Cons.prems by (rule storeStep_keeps_seen)
  then obtain r' where "storeStep now os d k = Some r'" "os_lastSeen r' = now" by blast
  then have "\<exists>r''. foldl (storeStep now) (storeStep now os d) ds k = Some r'' \<and> os_lastSeen r'' = now"
    by (rule Cons.IH)
  then show ?case by simp
qed

lemma loopStore_keeps: "os k \<noteq> None \<Longrightarrow> foldl (storeStep now) os ds k \<noteq> None"
proof (induction ds arbitrary: os)
  case Nil
  then show ?case by simp
next
  case (Cons d ds)
  from Cons.prems have "storeStep now os d k \<noteq> None" by (rule storeStep_keeps)
  then have "foldl (storeStep now) (storeStep now os d) ds k \<noteq> None" by (rule Cons.IH)
  then show ?case by simp
qed

lemma loopStore_seen:
  "d \<in> set ds \<Longrightarrow> levelOf d \<noteq> CLEAR \<Longrightarrow>
   \<exists>r. foldl (storeStep now) os ds (trackIdOf d) = Some r \<and> os_lastSeen r = now"
proof (induction ds arbitrary: os)
  case Nil
  then show ?case by simp
next
  case (Cons e ds)
  show ?case
  proof (cases "d = e")
    case True
    from storeStep_seen [OF Cons.prems(2)]
    obtain r where "storeStep now os d (trackIdOf d) = Some r" "os_lastSeen r = now" by blast
    then have "\<exists>r'. foldl (storeStep now) (storeStep now os d) ds (trackIdOf d) = Some r'
        \<and> os_lastSeen r' = now"
      by (rule loopStore_keeps_seen)
    then show ?thesis
      using True by simp
  next
    case False
    with Cons.prems have "d \<in> set ds" by simp
    from Cons.IH [OF this Cons.prems(2)] show ?thesis by simp
  qed
qed

lemma proposal_Some:
  "proposal now prev d = Some a \<Longrightarrow>
     trackId a = trackIdOf d \<and> levelOf d \<noteq> CLEAR
     \<and> priority a = level_priority (levelOf d) * 10 + risk_priority (riskOf d)
     \<and> isCritical a = (levelOf d = VERY_CLOSE \<or> (riskOf d = HIGH \<and> levelOf d = NEAR))
     \<and> buildSmartMessage (det_class d) (riskOf d) (levelOf d) (positionOf d)
           (Some (motionOf prev d)) = Some (message a)
     \<and> message a \<noteq> []"
  unfolding proposal_def
  by (cases "buildSmartMessage (det_class d) (riskOf d) (levelOf d) (positionOf d) (Some (motionOf prev d))")
     (auto split: if_splits)

lemma candidates_origin:
  "a \<in> set (candidates now os ds) \<Longrightarrow>
   \<exists>d\<in>set ds. trackId a = trackIdOf d \<and> levelOf d \<noteq> CLEAR
     \<and> priority a = level_priority (levelOf d) * 10 + risk_priority (riskOf d)
     \<and> isCritical a = (levelOf d = VERY_CLOSE \<or> (riskOf d = HIGH \<and> levelOf d = NEAR))
     \<and> message a \<noteq> []"
proof (induction ds arbitrary: os)
  case Nil
  then show ?case by simp
next
  case (Cons e ds)
  from Cons.prems have "candidateOf now os e = Some a \<or> a \<in> set (candidates now (storeAfter now os e) ds)"
    by (auto split: option.splits)
  then show ?case
  proof
    assume "candidateOf now os e = Some a"
    then have "proposal now (os (trackIdOf e)) e = Some a" by (simp add: candidateOf_eq)
    from proposal_Some [OF this] show ?thesis by simp
  next
    assume "a \<in> set (candidates now (storeAfter now os e) ds)"
    from Cons.IH [OF this] show ?thesis by auto
  qed
qed

lemma set_insertDetection: "set (insertDetection x ys) = insert x (set ys)"
  by (induction ys) auto

lemma set_sortDetections: "set (sortDetections ds) = set ds"
  unfolding sortDetections_def by (induction ds) (simp_all add: set_insertDetection)

lemma sortDetections_Nil_iff: "sortDetections ds = [] \<longleftrightarrow> ds = []"
  by (metis set_sortDetections set_empty)

lemma cleanup_kept:
  "cleanup now ids os k = Some s \<Longrightarrow> os k = Some s \<and> (k \<in> ids \<or> now - os_lastSeen s \<le> 5000)"
  by (auto simp: cleanup_def split: option.splits if_splits)

lemma cleanup_current: "k \<in> ids \<Longrightarrow> cleanup now ids os k = os k"
  by (simp add: cleanup_def split: option.splits)

lemma cleanup_stale:
  "os k = Some s \<Longrightarrow> k \<notin> ids \<Longrightarrow> 5000 < now - os_lastSeen s \<Longrightarrow> cleanup now ids os k = None"
  by (simp add: cleanup_def)

subsection \<open>The cycle after the loop\<close>

lemma runLoop_view:
  "runLoop st now dets =
     \<lparr> c_objectState = foldl (storeStep now) (objectState st) (sortDetections dets),
       c_currentIds = trackIdOf ` set dets,
       c_announcement = pick None (candidates now (objectState st) (sortDetections dets)) \<rparr>"
  by (simp add: runLoop_def loop_view storeAfter_fun set_sortDetections)

lemma processDetections_none:
  assumes "voiceActive st" "voiceReady st" "dets \<noteq> []"
    and "c_announcement (runLoop st now dets) = None"
  shows "processDetections st now ns dets = st\<lparr> objectState := sweptStore st now dets \<rparr>"
  using assms by (simp add: processDetections_def sweptStore_def Let_def)

lemma processDetections_suppressed:
  assumes "voiceActive st" "voiceReady st" "dets \<noteq> []"
    and "c_announcement (runLoop st now dets) = Some a"
    and "speechSynthesis st = None \<or> (\<not> isCritical a \<and> ns - lastSpeechTime st < 8000)"
  shows "processDetections st now ns dets = st\<lparr> objectState := sweptStore st now dets \<rparr>"
  using assms
  by (auto simp add: processDetections_def sweptStore_def Let_def speak_def globalCooldown_def)

lemma processDetections_spoken:
  assumes "voiceActive st" "voiceReady st" "dets \<noteq> []"
    and "c_announcement (runLoop st now dets) = Some a"
    and "speechSynthesis st = Some q"
    and "isCritical a \<or> 8000 \<le> ns - lastSpeechTime st"
    and "message a \<noteq> []"
    and "sweptStore st now dets (trackId a) = Some r"
  shows "processDetections st now ns dets =
     st\<lparr> objectState := (sweptStore st now dets)(trackId a \<mapsto> r\<lparr> os_lastAnnounced := now \<rparr>),
         speechSynthesis := Some ((if isCritical a then [] else q) @ [utteranceOf st (message a)]),
         lastSpeechTime := ns \<rparr>"
  using assms
  by (auto simp add: processDetections_def sweptStore_def Let_def speak_def globalCooldown_def utteranceOf_def)

lemma winner_in_candidates:
  assumes "c_announcement (runLoop st now dets) = Some a"
  shows "a \<in> set (candidates now (objectState st) (sortDetections dets))"
proof -
  from assms have "pick None (candidates now (objectState st) (sortDetections dets)) = Some a"
    by (simp add: runLoop_view)
  from pick_first_max [OF this] show ?thesis by auto
qed

lemma winner_origin:
  assumes "c_announcement (runLoop st now dets) = Some a"
  shows "\<exists>d\<in>set dets. trackId a = trackIdOf d \<and> levelOf d \<noteq> CLEAR
     \<and> priority a = level_priority (levelOf d) * 10 + risk_priority (riskOf d)
     \<and> isCritical a = (levelOf d = VERY_CLOSE \<or> (riskOf d = HIGH \<and> levelOf d = NEAR))
     \<and> message a \<noteq> []"
  using candidates_origin [OF winner_in_candidates [OF assms]]
  by (simp add: set_sortDetections)

lemma winner_record:
  assumes "c_announcement (runLoop st now dets) = Some a"
  shows "\<exists>r. sweptStore st now dets (trackId a) = Some r \<and> os_lastSeen r = now
            \<and> os_lastAnnounced r = lastAnn (objectState st) (trackId a)"
proof -
  from winner_origin [OF assms] obtain d where d: "d \<in> set dets" "trackId a = trackIdOf d"
    "levelOf d \<noteq> CLEAR" by blast
  then have "d \<in> set (sortDetections dets)" by (simp add: set_sortDetections)
  from loopStore_seen [OF this d(3)]
  obtain r where r: "foldl (storeStep now) (objectState st) (sortDetections dets) (trackIdOf d) = Some r"
    "os_lastSeen r = now" by blast
  have "lastAnn (foldl (storeStep now) (objectState st) (sortDetections dets)) (trackIdOf d)
      = lastAnn (objectState st) (trackIdOf d)"
    by (rule loopStore_lastAnn)
  with r have la: "os_lastAnnounced r = lastAnn (objectState st) (trackIdOf d)"
    by (simp add: lastAnn_def)
  have "trackIdOf d \<in> trackIdOf ` set dets" using d by blast
  then have "sweptStore st now dets (trackIdOf d) = Some r"
    using r by (simp add: sweptStore_def runLoop_view cleanup_current)
  with r la d show ?thesis by simp
qed

subsection \<open>Priority arbitration\<close>

text \<open>Unfolding rules that evaluate a cycle on concrete detections.\<close>

lemmas evals = processDetections_def runLoop_def sortDetections_def compareDetections_def
  processOne_def cleanup_def speak_def Let_def
  plainDetection_def carNear_def personClose_def readyEngine_def
  trackIdOf_def distanceOf_def positionOf_def getRiskCategory_def getDistanceLevel_def
  getBboxSize_def nth_opt_def calculateMotionStatus_short motion_examples buildSmartMessage_def
  toLowerCase_def toLowerChar_def orElse_def
  threshold_VERY_CLOSE_def threshold_NEAR_def threshold_FAR_def sizeHistoryLength_def
  globalCooldown_def criticalCooldown_def perObjectCooldown_def configRate_def configPitch_def configVolume_def
  candidateOf_def storeAfter_def freshCycle_def utteranceOf_def

lemma queue_after_cycle:
  "speechSynthesis (processDetections st now ns dets) = speechSynthesis st
   \<or> (\<exists>a q. c_announcement (runLoop st now dets) = Some a \<and> speechSynthesis st = Some q
        \<and> speechSynthesis (processDetections st now ns dets) =
            Some ((if isCritical a then [] else q) @ [utteranceOf st (message a)]))"
proof (cases "voiceActive st \<and> voiceReady st \<and> dets \<noteq> []")
  case False
  then have "processDetections st now ns dets = st"
    by (auto simp: processDetections_def)
  then show ?thesis by simp
next
  case True
  then have en: "voiceActive st" "voiceReady st" "dets \<noteq> []" by simp_all
  show ?thesis
  proof (cases "c_announcement (runLoop st now dets)")
    case None
    from processDetections_none [OF en None] show ?thesis by simp
  next
    case (Some a)
    show ?thesis
    proof (cases "speechSynthesis st = None \<or> (\<not> isCritical a \<and> ns - lastSpeechTime st < 8000)")
      case True
      from processDetections_suppressed [OF en Some True] show ?thesis by simp
    next
      case False
      then obtain q where q: "speechSynthesis st = Some q"
        and go: "isCritical a \<or> 8000 \<le> ns - lastSpeechTime st" by auto
      from winner_origin [OF Some] have m: "message a \<noteq> []" by blast
      from winner_record [OF Some] obtain r where r: "sweptStore st now dets (trackId a) = Some r"
        by blast
      from processDetections_spoken [OF en Some q go m r] Some q show ?thesis by simp
    qed
  qed
qed

lemma example_candidates:
  "candidates 20000 (objectState readyEngine) (sortDetections [personClose, carNear]) =
     [\<lparr> trackId = IdStr ''car_c'', message = ''Vehicle nearby.'', priority = 23, isCritical = True \<rparr>,
      \<lparr> trackId = IdStr ''person_c'', message = ''Careful. Person ahead.'', priority = 32, isCritical = True \<rparr>]"
  by (simp add: evals)

lemma example_queue:
  "speechSynthesis (processDetections readyEngine 20000 20000 [personClose, carNear]) =
     Some [utteranceOf readyEngine ''Careful. Person ahead.'']"
  by (simp add: evals)

text \<open>
  The sort puts the batch in the order of the specification, is a permutation of it, and
  is stable: detections with the same risk priority and distance keep their order.
\<close>

lemma compareDetections_le: "compareDetections a b \<le> 0 \<longleftrightarrow> inSortOrder a b"
  by (auto simp: compareDetections_def inSortOrder_def riskOf_def Let_def)

lemma inSortOrder_total: "\<not> inSortOrder a b \<Longrightarrow> inSortOrder b a"
  by (auto simp: inSortOrder_def)

lemma inSortOrder_trans: "inSortOrder a b \<Longrightarrow> inSortOrder b c \<Longrightarrow> inSortOrder a c"
  by (auto simp: inSortOrder_def)

lemma sorted_insertDetection:
  "sorted_wrt inSortOrder ys \<Longrightarrow> sorted_wrt inSortOrder (insertDetection x ys)"
proof (induction ys)
  case Nil
  show ?case by simp
next
  case (Cons y ys)
  show ?case
  proof (cases "inSortOrder x y")
    case True
    have "\<forall>z\<in>set ys. inSortOrder x z"
      using Cons.prems True by (auto intro: inSortOrder_trans)
    with True Cons.prems show ?thesis by (simp add: compareDetections_le)
  next
    case False
    then have "inSortOrder y x" by (rule inSortOrder_total)
    with False Cons show ?thesis
      by (simp add: compareDetections_le set_insertDetection)
  qed
qed

lemma sorted_sortDetections: "sorted_wrt inSortOrder (sortDetections ds)"
  unfolding sortDetections_def by (induction ds) (simp_all add: sorted_insertDetection)

lemma filter_insertDetection:
  "filter (hasSortKey r m) (insertDetection x ys) =
     (if hasSortKey r m x then x # filter (hasSortKey r m) ys else filter (hasSortKey r m) ys)"
proof (induction ys)
  case Nil
  show ?case by simp
next
  case (Cons y ys)
  show ?case
  proof (cases "inSortOrder x y")
    case True
    then show ?thesis by (simp add: compareDetections_le)
  next
    case False
    then have "\<not> (hasSortKey r m x \<and> hasSortKey r m y)"
      by (auto simp: hasSortKey_def inSortOrder_def)
    with False Cons.IH show ?thesis by (auto simp: compareDetections_le)
  qed
qed

lemma stable_sortDetections:
  "filter (hasSortKey r m) (sortDetections ds) = filter (hasSortKey r m) ds"
  unfolding sortDetections_def by (induction ds) (simp_all add: filter_insertDetection)

lemma mset_insertDetection: "mset (insertDetection x ys) = add_mset x (mset ys)"
  by (induction ys) simp_all

lemma mset_sortDetections: "mset (sortDetections ds) = mset ds"
  unfolding sortDetections_def by (induction ds) (simp_all add: mset_insertDetection)

lemma tie_example:
  "sortDetections [personLeftFar, personRightNear] = [personRightNear, personLeftFar]
   \<and> c_announcement (runLoop readyEngine 20000 [personLeftFar, personRightNear]) =
       Some \<lparr> trackId = IdStr ''person_right'', message = ''Person nearby.'', priority = 22,
              isCritical = False \<rparr>
   \<and> candidates 20000 (objectState readyEngine) (sortDetections [personLeftFar, personRightNear]) =
       [\<lparr> trackId = IdStr ''person_right'', message = ''Person nearby.'', priority = 22,
           isCritical = False \<rparr>,
        \<lparr> trackId = IdStr ''person_left'', message = ''Person nearby.'', priority = 22,
           isCritical = False \<rparr>]"
  by (simp add: evals personLeftFar_def personRightNear_def)

text \<open>
  Claim C3. In every cycle at most one candidate is dispatched. The batch is sorted by risk
  priority descending, then distance ascending, stably. The loop retains, among the
  candidates with a message (built with score distance priority * 10 + risk priority, in
  the sorted order of the batch), the one with the highest score, the first of them on a
  tie: every candidate before it scores strictly less, every candidate after it at most as
  much, and none is retained exactly when there is no candidate. After the cycle the
  speech queue is either unchanged or holds one new utterance, the retained candidate's
  message. A car at 2 m (NEAR/HIGH, score 23) and a person at 1 m (VERY\_CLOSE/MEDIUM,
  score 32) in one cycle: only the person's message is dispatched. Two persons at NEAR
  range tie at score 22: the nearer one, first in sorted order, is retained although the
  batch lists it second.
\<close>

theorem single_highest_candidate_dispatched:
  "(case c_announcement (runLoop st now dets) of
      None \<Rightarrow> candidates now (objectState st) (sortDetections dets) = []
    | Some a \<Rightarrow>
        (\<exists>pre post. candidates now (objectState st) (sortDetections dets) = pre @ a # post
           \<and> (\<forall>b\<in>set pre. priority b < priority a)
           \<and> (\<forall>b\<in>set post. priority b \<le> priority a)))
   \<and> (\<forall>b\<in>set (candidates now (objectState st) (sortDetections dets)).
        \<exists>d\<in>set dets. trackId b = trackIdOf d
          \<and> priority b = level_priority (levelOf d) * 10 + risk_priority (riskOf d))
   \<and> (speechSynthesis (processDetections st now ns dets) = speechSynthesis st
      \<or> (\<exists>a q. c_announcement (runLoop st now dets) = Some a \<and> speechSynthesis st = Some q
           \<and> speechSynthesis (processDetections st now ns dets) =
               Some ((if isCritical a then [] else q) @ [utteranceOf st (message a)])))
   \<and> candidates 20000 (objectState readyEngine) (sortDetections [personClose, carNear]) =
       [\<lparr> trackId = IdStr ''car_c'', message = ''Vehicle nearby.'', priority = 23,
          isCritical = True \<rparr>,
        \<lparr> trackId = IdStr ''person_c'', message = ''Careful. Person ahead.'', priority = 32,
          isCritical = True \<rparr>]
   \<and> speechSynthesis (processDetections readyEngine 20000 20000 [personClose, carNear]) =
       Some [utteranceOf readyEngine ''Careful. Person ahead.'']
   \<and> sorted_wrt inSortOrder (sortDetections dets)
   \<and> mset (sortDetections dets) = mset dets
   \<and> filter (hasSortKey r m) (sortDetections dets) = filter (hasSortKey r m) dets
   \<and> sortDetections [personLeftFar, personRightNear] = [personRightNear, personLeftFar]
   \<and> c_announcement (runLoop readyEngine 20000 [personLeftFar, personRightNear]) =
       Some \<lparr> trackId = IdStr ''person_right'', message = ''Person nearby.'', priority = 22,
              isCritical = False \<rparr>"
proof -
  let ?cs = "candidates now (objectState st) (sortDetections dets)"
  have sel: "c_announcement (runLoop st now dets) = pick None ?cs"
    by (simp add: runLoop_view)
  have one: "case c_announcement (runLoop st now dets) of
      None \<Rightarrow> ?cs = []
    | Some a \<Rightarrow>
        (\<exists>pre post. ?cs = pre @ a # post
           \<and> (\<forall>b\<in>set pre. priority b < priority a)
           \<and> (\<forall>b\<in>set post. priority b \<le> priority a))"
  proof (cases "pick None ?cs")
    case None
    then show ?thesis unfolding sel by (simp add: pick_None_iff)
  next
    case (Some a)
    from pick_first_max [OF Some] show ?thesis unfolding sel Some by simp
  qed
  have two: "\<forall>b\<in>set ?cs. \<exists>d\<in>set dets. trackId b = trackIdOf d
          \<and> priority b = level_priority (levelOf d) * 10 + risk_priority (riskOf d)"
  proof
    fix b assume "b \<in> set ?cs"
    from candidates_origin [OF this] show "\<exists>d\<in>set dets. trackId b = trackIdOf d
          \<and> priority b = level_priority (levelOf d) * 10 + risk_priority (riskOf d)"
      by (auto simp: set_sortDetections)
  qed
  show ?thesis
    using one two queue_after_cycle [of st now ns dets] example_candidates example_queue
      sorted_sortDetections [of dets] mset_sortDetections [of dets]
      stable_sortDetections [of r m dets] tie_example
    by blast
qed

theorem single_highest_candidate_dispatched_witness:
  "\<exists>pre post. candidates 20000 (objectState readyEngine) (sortDetections [personClose, carNear])
       = pre @ \<lparr> trackId = IdStr ''person_c'', message = ''Careful. Person ahead.'',
                  priority = 32, isCritical = True \<rparr> # post
     \<and> (\<forall>b\<in>set pre. priority b < 32) \<and> (\<forall>b\<in>set post. priority b \<le> 32)"
proof -
  have ann: "c_announcement (runLoop readyEngine 20000 [personClose, carNear]) =
      Some \<lparr> trackId = IdStr ''person_c'', message = ''Careful. Person ahead.'',
              priority = 32, isCritical = True \<rparr>"
    by (simp add: evals)
  have "case c_announcement (runLoop readyEngine 20000 [personClose, carNear]) of
      None \<Rightarrow> candidates 20000 (objectState readyEngine) (sortDetections [personClose, carNear]) = []
    | Some a \<Rightarrow>
        (\<exists>pre post. candidates 20000 (objectState readyEngine) (sortDetections [personClose, carNear])
             = pre @ a # post
           \<and> (\<forall>b\<in>set pre. priority b < priority a)
           \<and> (\<forall>b\<in>set post. priority b \<le> priority a))"
    using single_highest_candidate_dispatched
      [where st = readyEngine and now = 20000 and dets = "[personClose, carNear]" and ns = 20000]
    by (rule conjunct1)
  then show ?thesis unfolding ann by simp
qed

subsection \<open>Dispatch of the retained candidate\<close>

lemmas evals2 = evals personNear_def personFarRecord_def trackingEngine_def busyEngine_def
  lastAnn_def sweptStore_def

lemma speak_result:
  assumes "voiceActive st" and "text \<noteq> []"
  shows "fst (speak st ns text prio) =
      (speechSynthesis st \<noteq> None \<and> (prio = ''critical'' \<or> 8000 \<le> ns - lastSpeechTime st))"
  using assms by (auto simp add: speak_def Let_def globalCooldown_def)

text \<open>
  Claim C8. In a cycle that retained a candidate, \<open>speak\<close> returns true exactly when
  speech synthesis is available and the candidate is critical or at least 8000 ms have
  passed since \<open>lastSpeechTime\<close>. When it returns false (the dispatch is suppressed),
  \<open>lastSpeechTime\<close> and the retained object's \<open>lastAnnounced\<close> are what they were before
  the cycle; when it returns true, \<open>lastSpeechTime\<close> is the clock reading of \<open>speak\<close> and
  the object's \<open>lastAnnounced\<close> is the clock reading of the cycle.
\<close>

theorem timestamps_stamped_only_on_success:
  assumes "voiceActive st" and "voiceReady st" and "dets \<noteq> []"
    and "c_announcement (runLoop st now dets) = Some a"
  shows "fst (speak (st\<lparr> objectState := sweptStore st now dets \<rparr>) ns (message a)
               (if isCritical a then ''critical'' else ''normal''))
           = (speechSynthesis st \<noteq> None \<and> (isCritical a \<or> 8000 \<le> ns - lastSpeechTime st))
     \<and> (\<not> (speechSynthesis st \<noteq> None \<and> (isCritical a \<or> 8000 \<le> ns - lastSpeechTime st)) \<longrightarrow>
          lastSpeechTime (processDetections st now ns dets) = lastSpeechTime st
          \<and> lastAnn (objectState (processDetections st now ns dets)) (trackId a)
              = lastAnn (objectState st) (trackId a))
     \<and> (speechSynthesis st \<noteq> None \<and> (isCritical a \<or> 8000 \<le> ns - lastSpeechTime st) \<longrightarrow>
          lastSpeechTime (processDetections st now ns dets) = ns
          \<and> lastAnn (objectState (processDetections st now ns dets)) (trackId a) = now)"
proof -
  note en = assms(1-3) and win = assms(4)
  from winner_origin [OF win] have m: "message a \<noteq> []" by blast
  from winner_record [OF win] obtain r where r: "sweptStore st now dets (trackId a) = Some r"
    and la: "os_lastAnnounced r = lastAnn (objectState st) (trackId a)" by blast
  have sp: "fst (speak (st\<lparr> objectState := sweptStore st now dets \<rparr>) ns (message a)
               (if isCritical a then ''critical'' else ''normal''))
           = (speechSynthesis st \<noteq> None \<and> (isCritical a \<or> 8000 \<le> ns - lastSpeechTime st))"
    using speak_result [of "st\<lparr> objectState := sweptStore st now dets \<rparr>" "message a" ns
        "if isCritical a then ''critical'' else ''normal''"] en m
    by simp
  have no: "lastSpeechTime (processDetections st now ns dets) = lastSpeechTime st
          \<and> lastAnn (objectState (processDetections st now ns dets)) (trackId a)
              = lastAnn (objectState st) (trackId a)"
    if "\<not> (speechSynthesis st \<noteq> None \<and> (isCritical a \<or> 8000 \<le> ns - lastSpeechTime st))"
  proof -
    from that have "speechSynthesis st = None \<or> (\<not> isCritical a \<and> ns - lastSpeechTime st < 8000)"
      by auto
    from processDetections_suppressed [OF en win this] r la show ?thesis
      by (simp add: lastAnn_def)
  qed
  have yes: "lastSpeechTime (processDetections st now ns dets) = ns
          \<and> lastAnn (objectState (processDetections st now ns dets)) (trackId a) = now"
    if "speechSynthesis st \<noteq> None \<and> (isCritical a \<or> 8000 \<le> ns - lastSpeechTime st)"
  proof -
    from that obtain q where q: "speechSynthesis st = Some q"
      and go: "isCritical a \<or> 8000 \<le> ns - lastSpeechTime st" by auto
    from processDetections_spoken [OF en win q go m r] show ?thesis
      by (simp add: lastAnn_def)
  qed
  from sp no yes show ?thesis by blast
qed

theorem timestamps_stamped_only_on_success_witness:
  "lastSpeechTime (processDetections trackingEngine 20000 20001 [personNear]) = 15000
   \<and> lastAnn (objectState (processDetections trackingEngine 20000 20001 [personNear]))
        (IdStr ''person_c'') = 3000
   \<and> lastSpeechTime (processDetections (trackingEngine\<lparr> lastSpeechTime := 12000 \<rparr>) 20000 20001
        [personNear]) = 20001
   \<and> lastAnn (objectState (processDetections (trackingEngine\<lparr> lastSpeechTime := 12000 \<rparr>) 20000
        20001 [personNear])) (IdStr ''person_c'') = 20000"
proof -
  let ?a = "\<lparr> trackId = IdStr ''person_c'', message = ''Person nearby.'', priority = 22,
              isCritical = False \<rparr>"
  have w1: "c_announcement (runLoop trackingEngine 20000 [personNear]) = Some ?a"
    by (simp add: evals2)
  have w2: "c_announcement (runLoop (trackingEngine\<lparr> lastSpeechTime := 12000 \<rparr>) 20000 [personNear])
      = Some ?a"
    by (simp add: evals2)
  have e1: "voiceActive trackingEngine" "voiceReady trackingEngine" "[personNear] \<noteq> []"
    by (simp_all add: evals2)
  have e2: "voiceActive (trackingEngine\<lparr> lastSpeechTime := 12000 \<rparr>)"
    "voiceReady (trackingEngine\<lparr> lastSpeechTime := 12000 \<rparr>)"
    by (simp_all add: evals2)
  have f: "speechSynthesis trackingEngine \<noteq> None" "lastSpeechTime trackingEngine = 15000"
    "lastAnn (objectState trackingEngine) (IdStr ''person_c'') = 3000"
    by (simp_all add: evals2)
  show ?thesis
    using timestamps_stamped_only_on_success [OF e1 w1, of 20001]
      timestamps_stamped_only_on_success [OF e2 e1(3) w2, of 20001] f
    by simp
qed

text \<open>
  Claim C10. The retained candidate comes from a detection of the batch and is critical
  exactly when that detection's distance tier is VERY\_CLOSE, or its risk tier is HIGH and
  its distance tier NEAR. The cycle dispatches it with \<open>speak\<close> at priority
  \<open>'critical'\<close> in that case and \<open>'normal'\<close> otherwise. A critical dispatch replaces
  whatever is queued by the one new utterance and stamps \<open>lastSpeechTime\<close>, whatever the
  time since the last speech; a normal one is dropped within 8000 ms of the last speech
  and queued behind the current speech otherwise.
\<close>

theorem critical_for_very_close_or_high_near:
  assumes "voiceActive st" and "voiceReady st" and "dets \<noteq> []"
    and "speechSynthesis st = Some q"
    and "c_announcement (runLoop st now dets) = Some a"
  shows "(\<exists>d\<in>set dets. trackId a = trackIdOf d
            \<and> priority a = level_priority (levelOf d) * 10 + risk_priority (riskOf d)
            \<and> isCritical a = (levelOf d = VERY_CLOSE \<or> (riskOf d = HIGH \<and> levelOf d = NEAR)))
     \<and> speechSynthesis (processDetections st now ns dets) =
         speechSynthesis (snd (speak (st\<lparr> objectState := sweptStore st now dets \<rparr>) ns (message a)
               (if isCritical a then ''critical'' else ''normal'')))
     \<and> lastSpeechTime (processDetections st now ns dets) =
         lastSpeechTime (snd (speak (st\<lparr> objectState := sweptStore st now dets \<rparr>) ns (message a)
               (if isCritical a then ''critical'' else ''normal'')))
     \<and> (isCritical a \<longrightarrow>
          speechSynthesis (processDetections st now ns dets) = Some [utteranceOf st (message a)]
          \<and> lastSpeechTime (processDetections st now ns dets) = ns)
     \<and> (\<not> isCritical a \<longrightarrow>
          (if ns - lastSpeechTime st < 8000
           then speechSynthesis (processDetections st now ns dets) = Some q
                \<and> lastSpeechTime (processDetections st now ns dets) = lastSpeechTime st
           else speechSynthesis (processDetections st now ns dets)
                  = Some (q @ [utteranceOf st (message a)])
                \<and> lastSpeechTime (processDetections st now ns dets) = ns))"
proof -
  note en = assms(1-3) and q = assms(4) and win = assms(5)
  from winner_origin [OF win] have m: "message a \<noteq> []"
    and orig: "\<exists>d\<in>set dets. trackId a = trackIdOf d
            \<and> priority a = level_priority (levelOf d) * 10 + risk_priority (riskOf d)
            \<and> isCritical a = (levelOf d = VERY_CLOSE \<or> (riskOf d = HIGH \<and> levelOf d = NEAR))"
    by blast+
  from winner_record [OF win] obtain r where r: "sweptStore st now dets (trackId a) = Some r"
    by blast
  let ?st1 = "st\<lparr> objectState := sweptStore st now dets \<rparr>"
  let ?prio = "if isCritical a then ''critical'' else ''normal''"
  show ?thesis
  proof (cases "isCritical a \<or> 8000 \<le> ns - lastSpeechTime st")
    case True
    have sp: "snd (speak ?st1 ns (message a) ?prio) =
        ?st1\<lparr> speechSynthesis := Some ((if isCritical a then [] else q) @ [utteranceOf st (message a)]),
              lastSpeechTime := ns \<rparr>"
      using en q m True
      by (auto simp add: speak_def Let_def globalCooldown_def utteranceOf_def)
    from processDetections_spoken [OF en win q True m r] sp orig True show ?thesis
      by auto
  next
    case False
    then have sup: "speechSynthesis st = None \<or> (\<not> isCritical a \<and> ns - lastSpeechTime st < 8000)"
      by auto
    have sp: "snd (speak ?st1 ns (message a) ?prio) = ?st1"
      using en q m False by (auto simp add: speak_def Let_def globalCooldown_def)
    from processDetections_suppressed [OF en win sup] sp orig False q show ?thesis
      by auto
  qed
qed

theorem critical_for_very_close_or_high_near_witness:
  "speechSynthesis (processDetections busyEngine 20000 20001 [carNear]) =
      Some [utteranceOf busyEngine ''Vehicle nearby.'']
   \<and> lastSpeechTime (processDetections busyEngine 20000 20001 [carNear]) = 20001
   \<and> levelOf carNear = NEAR \<and> riskOf carNear = HIGH"
proof -
  let ?a = "\<lparr> trackId = IdStr ''car_c'', message = ''Vehicle nearby.'', priority = 23,
              isCritical = True \<rparr>"
  have w: "c_announcement (runLoop busyEngine 20000 [carNear]) = Some ?a"
    by (simp add: evals2)
  have e: "voiceActive busyEngine" "voiceReady busyEngine" "[carNear] \<noteq> []"
    "speechSynthesis busyEngine = Some [utteranceOf readyEngine ''Guidance ready.'']"
    by (simp_all add: evals2)
  have t: "levelOf carNear = NEAR" "riskOf carNear = HIGH"
    by (simp_all add: levelOf_def riskOf_def evals2)
  have "isCritical ?a \<longrightarrow>
      speechSynthesis (processDetections busyEngine 20000 20001 [carNear])
        = Some [utteranceOf busyEngine (message ?a)]
      \<and> lastSpeechTime (processDetections busyEngine 20000 20001 [carNear]) = 20001"
    using critical_for_very_close_or_high_near [OF e w, of 20001] by blast
  then show ?thesis using t by simp
qed

subsection \<open>The eviction sweep\<close>

lemmas evals3 = evals2 staleCarRecord_def staleEngine_def carBeyond_def levelOf_def riskOf_def

text \<open>
  Claim C4, as stated, says that at the end of any cycle no record older than 5000 ms
  remains in the store. A record last seen at 0 is still there after a cycle at 10000
  whose batch reports the same identity beyond range, and after a cycle with an empty
  batch.
\<close>

theorem stale_record_survives_counterexample:
  "objectState (processDetections staleEngine 10000 10000 [carBeyond]) (IdStr ''car_c'')
      = Some staleCarRecord
   \<and> objectState (processDetections staleEngine 10000 10000 []) (IdStr ''car_c'')
      = Some staleCarRecord
   \<and> 5000 < 10000 - os_lastSeen staleCarRecord"
  by (simp add: evals3)

lemma loopStore_clear:
  "\<forall>d\<in>set ds. trackIdOf d = k \<longrightarrow> levelOf d = CLEAR \<Longrightarrow> foldl (storeStep now) os ds k = os k"
proof (induction ds arbitrary: os)
  case Nil
  show ?case by simp
next
  case (Cons d ds)
  have "storeStep now os d k = os k"
    using Cons.prems by (cases "trackIdOf d = k") (auto simp: storeStep_def)
  moreover have "foldl (storeStep now) (storeStep now os d) ds k = storeStep now os d k"
    using Cons.prems by (intro Cons.IH) simp
  ultimately show ?case by simp
qed

lemma processDetections_store:
  assumes "voiceActive st" and "voiceReady st" and "dets \<noteq> []"
  shows "objectState (processDetections st now ns dets) k = sweptStore st now dets k
     \<or> (\<exists>a r. c_announcement (runLoop st now dets) = Some a \<and> k = trackId a
           \<and> sweptStore st now dets k = Some r
           \<and> objectState (processDetections st now ns dets) k = Some (r\<lparr> os_lastAnnounced := now \<rparr>))"
proof (cases "c_announcement (runLoop st now dets)")
  case None
  from processDetections_none [OF assms None] show ?thesis by simp
next
  case (Some a)
  show ?thesis
  proof (cases "speechSynthesis st = None \<or> (\<not> isCritical a \<and> ns - lastSpeechTime st < 8000)")
    case True
    from processDetections_suppressed [OF assms Some True] show ?thesis by simp
  next
    case False
    then obtain q where q: "speechSynthesis st = Some q"
      and go: "isCritical a \<or> 8000 \<le> ns - lastSpeechTime st" by auto
    from winner_origin [OF Some] have m: "message a \<noteq> []" by blast
    from winner_record [OF Some] obtain r where r: "sweptStore st now dets (trackId a) = Some r"
      by blast
    from processDetections_spoken [OF assms Some q go m r] Some r show ?thesis
      by (cases "k = trackId a") simp_all
  qed
qed

lemma processDetections_guard:
  "\<not> voiceActive st \<or> \<not> voiceReady st \<or> dets = [] \<Longrightarrow> processDetections st now ns dets = st"
  by (auto simp: processDetections_def)

lemma sweep_leaves_fresh_or_current:
  assumes "voiceActive st" and "voiceReady st" and "dets \<noteq> []"
    and "objectState (processDetections st now ns dets) k = Some s"
  shows "now - os_lastSeen s \<le> 5000
     \<or> ((\<exists>d\<in>set dets. trackIdOf d = k) \<and> (\<forall>d\<in>set dets. trackIdOf d = k \<longrightarrow> levelOf d = CLEAR)
         \<and> objectState st k = Some s)"
proof -
  let ?os = "foldl (storeStep now) (objectState st) (sortDetections dets)"
  have sw: "sweptStore st now dets = cleanup now (trackIdOf ` set dets) ?os"
    by (simp add: sweptStore_def runLoop_view)
  show ?thesis
  proof (cases "\<exists>d\<in>set dets. trackIdOf d = k \<and> levelOf d \<noteq> CLEAR")
    case True
    then obtain d where d: "d \<in> set (sortDetections dets)" "trackIdOf d = k" "levelOf d \<noteq> CLEAR"
      by (auto simp: set_sortDetections)
    from loopStore_seen [OF d(1) d(3)] d(2)
    obtain r where r: "?os k = Some r" "os_lastSeen r = now" by auto
    have "k \<in> trackIdOf ` set dets" using d by (auto simp: set_sortDetections)
    then have "sweptStore st now dets k = Some r"
      using r by (simp add: sw cleanup_current)
    with processDetections_store [OF assms(1-3), of now ns k] assms(4) r
    have "os_lastSeen s = now" by auto
    then show ?thesis by simp
  next
    case False
    then have clr: "\<forall>d\<in>set (sortDetections dets). trackIdOf d = k \<longrightarrow> levelOf d = CLEAR"
      by (auto simp: set_sortDetections)
    have same: "?os k = objectState st k" using clr by (rule loopStore_clear)
    have notwin: "k \<noteq> trackId a" if "c_announcement (runLoop st now dets) = Some a" for a
      using winner_origin [OF that] False by auto
    with processDetections_store [OF assms(1-3), of now ns k] assms(4)
    have "sweptStore st now dets k = Some s" by auto
    then have "cleanup now (trackIdOf ` set dets) ?os k = Some s" by (simp add: sw)
    from cleanup_kept [OF this] same
    have "objectState st k = Some s" and "k \<in> trackIdOf ` set dets \<or> now - os_lastSeen s \<le> 5000"
      by simp_all
    with False show ?thesis by auto
  qed
qed

text \<open>
  Claim C4, amended. A cycle with the voice off, the voices not loaded or an empty batch
  returns before the sweep: the state is unchanged and nothing is purged. At the end of a
  cycle that runs (voice on and loaded, batch not empty), every record left in the store
  was seen at most 5000 ms ago, except the records of identities that the batch reports
  only beyond range (tier CLEAR): the sweep spares the identities of the current batch,
  and those records are as they were before the cycle.
\<close>

theorem stale_records_swept_unless_in_batch:
  "(\<not> voiceActive st \<or> \<not> voiceReady st \<or> dets = [] \<longrightarrow>
      processDetections st now ns dets = st)
   \<and> (voiceActive st \<and> voiceReady st \<and> dets \<noteq> []
       \<and> objectState (processDetections st now ns dets) k = Some s \<longrightarrow>
      now - os_lastSeen s \<le> 5000
      \<or> ((\<exists>d\<in>set dets. trackIdOf d = k)
          \<and> (\<forall>d\<in>set dets. trackIdOf d = k \<longrightarrow> levelOf d = CLEAR)
          \<and> objectState st k = Some s))"
  using processDetections_guard [of st dets now ns]
    sweep_leaves_fresh_or_current [of st dets now ns k s]
  by blast

theorem stale_records_swept_unless_in_batch_witness:
  "(20000 - os_lastSeen (personFarRecord\<lparr> os_level := NEAR, os_distance := 2, os_lastSeen := 20000 \<rparr>)
      \<le> 5000)
   \<and> objectState (processDetections trackingEngine 20000 20001 [personNear]) (IdStr ''person_c'')
      = Some (personFarRecord\<lparr> os_level := NEAR, os_distance := 2, os_lastSeen := 20000 \<rparr>)
   \<and> levelOf carBeyond = CLEAR
   \<and> objectState (processDetections staleEngine 10000 10000 [carBeyond]) (IdStr ''car_c'')
      = Some staleCarRecord
   \<and> processDetections (staleEngine\<lparr> voiceActive := False \<rparr>) 10000 10000 [personNear]
      = staleEngine\<lparr> voiceActive := False \<rparr>
   \<and> processDetections staleEngine 10000 10000 [] = staleEngine"
proof -
  have e1: "voiceActive trackingEngine \<and> voiceReady trackingEngine \<and> [personNear] \<noteq> []"
    by (simp add: evals3)
  have s1: "objectState (processDetections trackingEngine 20000 20001 [personNear]) (IdStr ''person_c'')
      = Some (personFarRecord\<lparr> os_level := NEAR, os_distance := 2, os_lastSeen := 20000 \<rparr>)"
    by (simp add: evals3)
  have e2: "voiceActive staleEngine \<and> voiceReady staleEngine \<and> [carBeyond] \<noteq> []"
    by (simp add: evals3)
  have s2: "objectState (processDetections staleEngine 10000 10000 [carBeyond]) (IdStr ''car_c'')
      = Some staleCarRecord"
    by (simp add: evals3)
  have old: "\<not> 10000 - os_lastSeen staleCarRecord \<le> 5000"
    by (simp add: evals3)
  have new: "\<not> levelOf personNear = CLEAR" "trackIdOf personNear = IdStr ''person_c''"
    by (simp_all add: evals3)
  have off: "\<not> voiceActive (staleEngine\<lparr> voiceActive := False \<rparr>)"
    by simp
  from stale_records_swept_unless_in_batch
    [where st = trackingEngine and dets = "[personNear]" and now = 20000 and ns = 20001
      and k = "IdStr ''person_c''"
      and s = "personFarRecord\<lparr> os_level := NEAR, os_distance := 2, os_lastSeen := 20000 \<rparr>"]
    e1 s1 new
  have a: "20000 - os_lastSeen (personFarRecord\<lparr> os_level := NEAR, os_distance := 2, os_lastSeen := 20000 \<rparr>)
      \<le> 5000"
    by auto
  from stale_records_swept_unless_in_batch
    [where st = staleEngine and dets = "[carBeyond]" and now = 10000 and ns = 10000
      and k = "IdStr ''car_c''" and s = staleCarRecord]
    e2 s2 old
  have b: "levelOf carBeyond = CLEAR" by auto
  from stale_records_swept_unless_in_batch
    [where st = "staleEngine\<lparr> voiceActive := False \<rparr>" and dets = "[personNear]"
      and now = 10000 and ns = 10000] off
  have c: "processDetections (staleEngine\<lparr> voiceActive := False \<rparr>) 10000 10000 [personNear]
      = staleEngine\<lparr> voiceActive := False \<rparr>"
    by blast
  from stale_records_swept_unless_in_batch
    [where st = staleEngine and dets = "[]" and now = 10000 and ns = 10000]
  have d: "processDetections staleEngine 10000 10000 [] = staleEngine"
    by blast
  from a b c d s1 s2 show ?thesis by blast
qed

subsection \<open>Empty batches and zero distances\<close>

lemmas evals4 = evals3 carAtZero_def

text \<open>
  Claim C5, as stated, says that with an empty batch the tracked states age and a record
  older than 5000 ms is eventually evicted by the sweep. The sweep is not reached in a
  cycle with an empty batch: a record last seen at 0 is still stored after empty cycles at
  10000 and 15000, and when its identity is reported again at 16000 the record is
  continued (its size history grows) instead of having been evicted.
\<close>

theorem empty_batch_never_sweeps_counterexample:
  "objectState (processDetections (processDetections staleEngine 10000 10000 []) 15000 15000 [])
      (IdStr ''car_c'') = Some staleCarRecord
   \<and> 5000 < 15000 - os_lastSeen staleCarRecord
   \<and> map_option os_bboxSizes
        (objectState (processDetections (processDetections staleEngine 10000 10000 []) 16000 16000
           [carNear]) (IdStr ''car_c'')) = Some [1000, 10000]"
  by (simp add: evals4)

lemma loopStore_single:
  assumes "filter (\<lambda>e. trackIdOf e = k) ds = [d]" and "levelOf d \<noteq> CLEAR"
  shows "foldl (storeStep now) os ds k = Some (recordOf now (os k) d)"
  using assms(1)
proof (induction ds arbitrary: os)
  case Nil
  then show ?case by simp
next
  case (Cons e ds)
  show ?case
  proof (cases "trackIdOf e = k")
    case True
    with Cons.prems have ed: "e = d" and rest: "filter (\<lambda>e. trackIdOf e = k) ds = []" by simp_all
    from rest have "k \<notin> trackIdOf ` set ds" by (auto simp: filter_empty_conv)
    then have "foldl (storeStep now) (storeStep now os e) ds k = storeStep now os e k"
      by (rule loopStore_other)
    also have "\<dots> = Some (recordOf now (os k) d)"
      using True ed assms(2) by (simp add: storeStep_def)
    finally show ?thesis by simp
  next
    case False
    with Cons.prems have "filter (\<lambda>e. trackIdOf e = k) ds = [d]" by simp
    then have "foldl (storeStep now) (storeStep now os e) ds k
        = Some (recordOf now (storeStep now os e k) d)"
      by (rule Cons.IH)
    moreover have "storeStep now os e k = os k"
      using False by (simp add: storeStep_other)
    ultimately show ?thesis by simp
  qed
qed

lemma filter_sortDetections_single:
  assumes "filter P dets = [d]"
  shows "filter P (sortDetections dets) = [d]"
proof -
  have "mset (filter P (sortDetections dets)) = mset (filter P dets)"
    by (simp add: mset_sortDetections)
  with assms have "mset (filter P (sortDetections dets)) = {#d#}" by simp
  then show ?thesis
    using mset_single_iff [of "filter P (sortDetections dets)" d] by simp
qed

lemma reported_again_is_continued:
  assumes en: "voiceActive st" "voiceReady st"
    and rec: "objectState st k = Some s"
    and one: "filter (\<lambda>e. trackIdOf e = k) dets = [d]"
    and lvl: "levelOf d \<noteq> CLEAR"
  shows "\<exists>r. storeAfter now (objectState st) d k = Some r
      \<and> os_bboxSizes r = sizesOf (Some s) d
      \<and> os_lastAnnounced r = os_lastAnnounced s
      \<and> os_lastSeen r = now
      \<and> (objectState (processDetections st now ns dets) k = Some r
          \<or> objectState (processDetections st now ns dets) k = Some (r\<lparr> os_lastAnnounced := now \<rparr>))"
proof -
  let ?r = "recordOf now (Some s) d"
  from one have "d \<in> set (filter (\<lambda>e. trackIdOf e = k) dets)" by simp
  then have dk: "trackIdOf d = k" and din: "d \<in> set dets" by simp_all
  from din have ne: "dets \<noteq> []" by auto
  have sa: "storeAfter now (objectState st) d k = Some ?r"
    using dk lvl rec by (simp add: storeAfter_eq storeStep_def)
  from one have "filter (\<lambda>e. trackIdOf e = k) (sortDetections dets) = [d]"
    by (rule filter_sortDetections_single)
  then have "foldl (storeStep now) (objectState st) (sortDetections dets) k
      = Some (recordOf now (objectState st k) d)"
    using lvl by (rule loopStore_single)
  with rec have loop: "foldl (storeStep now) (objectState st) (sortDetections dets) k = Some ?r"
    by simp
  have "k \<in> trackIdOf ` set dets" using dk din by blast
  then have sw: "sweptStore st now dets k = Some ?r"
    using loop by (simp add: sweptStore_def runLoop_view cleanup_current)
  from processDetections_store [OF en ne, of now ns k] sw
  have "objectState (processDetections st now ns dets) k = Some ?r
      \<or> objectState (processDetections st now ns dets) k = Some (?r\<lparr> os_lastAnnounced := now \<rparr>)"
    by auto
  with sa show ?thesis by (auto simp: recordOf_def)
qed

lemma stale_absent_is_evicted:
  assumes en: "voiceActive st" "voiceReady st" "dets \<noteq> []"
    and rec: "objectState st k = Some s" and old: "5000 < now - os_lastSeen s"
    and absent: "k \<notin> trackIdOf ` set dets"
  shows "objectState (processDetections st now ns dets) k = None"
proof -
  let ?os = "foldl (storeStep now) (objectState st) (sortDetections dets)"
  have "k \<notin> trackIdOf ` set (sortDetections dets)"
    using absent by (simp add: set_sortDetections)
  then have "?os k = objectState st k" by (rule loopStore_other)
  with rec have "?os k = Some s" by simp
  then have "cleanup now (trackIdOf ` set dets) ?os k = None"
    using absent old by (rule cleanup_stale)
  then have sw: "sweptStore st now dets k = None"
    by (simp add: sweptStore_def runLoop_view)
  from processDetections_store [OF en, of now ns k] sw show ?thesis by auto
qed

text \<open>
  Claim C5, amended. A cycle with an empty batch (as one with the voice off or the voices
  not loaded) returns at once: nothing is announced and the state, store included, is
  unchanged, so the tracked states age and none is swept in that cycle. A record last seen
  more than 5000 ms ago is evicted by the sweep of the next cycle that runs (voice on and
  loaded, batch not empty) and whose batch does not report its identity. When instead the
  batch of that next cycle reports the identity, once and within range, the old record is
  continued however old it is: the record stored is the one the loop body builds from it,
  with the old size history extended by the new sample, the old \<open>lastAnnounced\<close> (or the
  cycle's clock reading, if the identity is announced) and \<open>lastSeen\<close> set to now.
\<close>

theorem empty_batch_is_noop:
  "processDetections st now ns [] = st
   \<and> (\<not> voiceActive st \<or> \<not> voiceReady st \<longrightarrow> processDetections st now ns dets = st)
   \<and> (voiceActive st \<and> voiceReady st \<and> dets \<noteq> [] \<and> objectState st k = Some s
        \<and> 5000 < now' - os_lastSeen s \<and> k \<notin> trackIdOf ` set dets \<longrightarrow>
      objectState (processDetections (processDetections st now ns []) now' ns' dets) k = None)
   \<and> (voiceActive st \<and> voiceReady st \<and> objectState st k = Some s
        \<and> filter (\<lambda>e. trackIdOf e = k) dets = [d] \<and> levelOf d \<noteq> CLEAR \<longrightarrow>
      (\<exists>r. storeAfter now' (objectState st) d k = Some r
         \<and> os_bboxSizes r = sizesOf (Some s) d
         \<and> os_lastAnnounced r = os_lastAnnounced s
         \<and> os_lastSeen r = now'
         \<and> (objectState (processDetections (processDetections st now ns []) now' ns' dets) k
               = Some r
             \<or> objectState (processDetections (processDetections st now ns []) now' ns' dets) k
               = Some (r\<lparr> os_lastAnnounced := now' \<rparr>))))"
proof -
  have noop: "processDetections st now ns [] = st"
    by (simp add: processDetections_def)
  have off: "processDetections st now ns dets = st" if "\<not> voiceActive st \<or> \<not> voiceReady st"
    using that by (auto intro: processDetections_guard)
  have evict: "objectState (processDetections st now' ns' dets) k = None"
    if "voiceActive st \<and> voiceReady st \<and> dets \<noteq> [] \<and> objectState st k = Some s
        \<and> 5000 < now' - os_lastSeen s \<and> k \<notin> trackIdOf ` set dets"
    using that by (auto intro: stale_absent_is_evicted)
  have continued: "\<exists>r. storeAfter now' (objectState st) d k = Some r
         \<and> os_bboxSizes r = sizesOf (Some s) d
         \<and> os_lastAnnounced r = os_lastAnnounced s
         \<and> os_lastSeen r = now'
         \<and> (objectState (processDetections st now' ns' dets) k = Some r
             \<or> objectState (processDetections st now' ns' dets) k
               = Some (r\<lparr> os_lastAnnounced := now' \<rparr>))"
    if "voiceActive st \<and> voiceReady st \<and> objectState st k = Some s
        \<and> filter (\<lambda>e. trackIdOf e = k) dets = [d] \<and> levelOf d \<noteq> CLEAR"
    using that reported_again_is_continued [of st k s dets d now' ns'] by blast
  from noop off evict continued show ?thesis by simp
qed

theorem empty_batch_is_noop_witness:
  "processDetections staleEngine 10000 10000 [] = staleEngine
   \<and> objectState staleEngine (IdStr ''car_c'') = Some staleCarRecord
   \<and> objectState (processDetections (processDetections staleEngine 10000 10000 []) 12000 12000
        [personNear]) (IdStr ''car_c'') = None
   \<and> processDetections (staleEngine\<lparr> voiceReady := False \<rparr>) 12000 12000 [carNear]
        = staleEngine\<lparr> voiceReady := False \<rparr>
   \<and> map_option os_bboxSizes
        (objectState (processDetections (processDetections staleEngine 10000 10000 []) 16000 16000
           [carNear]) (IdStr ''car_c'')) = Some [1000, 10000]"
proof -
  have h: "voiceActive staleEngine \<and> voiceReady staleEngine \<and> [personNear] \<noteq> []
      \<and> objectState staleEngine (IdStr ''car_c'') = Some staleCarRecord
      \<and> 5000 < 12000 - os_lastSeen staleCarRecord
      \<and> IdStr ''car_c'' \<notin> trackIdOf ` set [personNear]"
    by (simp add: evals4)
  from empty_batch_is_noop [where st = staleEngine and now = 10000 and ns = 10000
      and dets = "[personNear]" and k = "IdStr ''car_c''" and s = staleCarRecord
      and now' = 12000 and ns' = 12000] h
  have a: "processDetections staleEngine 10000 10000 [] = staleEngine
   \<and> objectState staleEngine (IdStr ''car_c'') = Some staleCarRecord
   \<and> objectState (processDetections (processDetections staleEngine 10000 10000 []) 12000 12000
        [personNear]) (IdStr ''car_c'') = None"
    by blast
  have o: "\<not> voiceActive (staleEngine\<lparr> voiceReady := False \<rparr>)
      \<or> \<not> voiceReady (staleEngine\<lparr> voiceReady := False \<rparr>)"
    by simp
  from empty_batch_is_noop [where st = "staleEngine\<lparr> voiceReady := False \<rparr>" and now = 12000
      and ns = 12000 and dets = "[carNear]"] o
  have b: "processDetections (staleEngine\<lparr> voiceReady := False \<rparr>) 12000 12000 [carNear]
        = staleEngine\<lparr> voiceReady := False \<rparr>"
    by blast
  have c0: "voiceActive staleEngine \<and> voiceReady staleEngine
      \<and> objectState staleEngine (IdStr ''car_c'') = Some staleCarRecord
      \<and> filter (\<lambda>e. trackIdOf e = IdStr ''car_c'') [carNear] = [carNear]
      \<and> levelOf carNear \<noteq> CLEAR"
    by (simp add: evals4)
  have sz: "sizesOf (Some staleCarRecord) carNear = [1000, 10000]"
    by (simp add: sizesOf_def evals4)
  from empty_batch_is_noop [where st = staleEngine and now = 10000 and ns = 10000
      and dets = "[carNear]" and k = "IdStr ''car_c''" and s = staleCarRecord and d = carNear
      and now' = 16000 and ns' = 16000] c0
  obtain r where "os_bboxSizes r = sizesOf (Some staleCarRecord) carNear"
    and "objectState (processDetections (processDetections staleEngine 10000 10000 []) 16000 16000
           [carNear]) (IdStr ''car_c'') = Some r
      \<or> objectState (processDetections (processDetections staleEngine 10000 10000 []) 16000 16000
           [carNear]) (IdStr ''car_c'') = Some (r\<lparr> os_lastAnnounced := 16000 \<rparr>)"
    by blast
  then have c: "map_option os_bboxSizes
        (objectState (processDetections (processDetections staleEngine 10000 10000 []) 16000 16000
           [carNear]) (IdStr ''car_c'')) = Some [1000, 10000]"
    using sz by auto
  from a b c show ?thesis by blast
qed

lemma candidates_all_clear:
  assumes "\<forall>d\<in>set ds. levelOf d = CLEAR"
  shows "candidates now os ds = []"
proof (rule ccontr)
  assume "candidates now os ds \<noteq> []"
  then obtain a where "a \<in> set (candidates now os ds)" by (cases "candidates now os ds") auto
  from candidates_origin [OF this] assms show False by auto
qed

text \<open>
  Claim C9. A detection whose \<open>distance_m\<close> is exactly 0 gets the distance 10, the same as
  one with no distance; its tier is CLEAR and the loop skips it: it only records the
  identity among the current ones, builds no candidate and leaves the store alone. A batch
  of such detections announces nothing.
\<close>

theorem zero_distance_is_skipped:
  assumes "det_distance_m det = Some 0"
  shows "distanceOf det = 10
     \<and> distanceOf det = distanceOf (det\<lparr> det_distance_m := None \<rparr>)
     \<and> levelOf det = CLEAR
     \<and> processOne now c det = c\<lparr> c_currentIds := insert (trackIdOf det) (c_currentIds c) \<rparr>
     \<and> candidateOf now os det = None
     \<and> storeAfter now os det = os
     \<and> ((\<forall>d\<in>set dets. det_distance_m d = Some 0) \<longrightarrow>
          speechSynthesis (processDetections st now ns dets) = speechSynthesis st
          \<and> lastSpeechTime (processDetections st now ns dets) = lastSpeechTime st)"
proof -
  have zero: "distanceOf d = 10 \<and> levelOf d = CLEAR" if "det_distance_m d = Some 0" for d
    using that
    by (simp add: distanceOf_def levelOf_def getDistanceLevel_def threshold_VERY_CLOSE_def
        threshold_NEAR_def threshold_FAR_def)
  from zero [OF assms] have d10: "distanceOf det = 10" and clr: "levelOf det = CLEAR" by simp_all
  have same: "distanceOf det = distanceOf (det\<lparr> det_distance_m := None \<rparr>)"
    using d10 by (simp add: distanceOf_def)
  have step: "processOne now c det = c\<lparr> c_currentIds := insert (trackIdOf det) (c_currentIds c) \<rparr>"
    using clr by (rule processOne_CLEAR)
  have cand: "candidateOf now os det = None"
    using clr by (simp add: candidateOf_eq proposal_CLEAR)
  have store: "storeAfter now os det = os"
    using clr by (simp add: storeAfter_eq storeStep_def)
  have silent: "speechSynthesis (processDetections st now ns dets) = speechSynthesis st
          \<and> lastSpeechTime (processDetections st now ns dets) = lastSpeechTime st"
    if all: "\<forall>d\<in>set dets. det_distance_m d = Some 0"
  proof (cases "voiceActive st \<and> voiceReady st \<and> dets \<noteq> []")
    case False
    then have "processDetections st now ns dets = st"
      by (auto simp: processDetections_def)
    then show ?thesis by simp
  next
    case True
    then have en: "voiceActive st" "voiceReady st" "dets \<noteq> []" by simp_all
    have "\<forall>d\<in>set (sortDetections dets). levelOf d = CLEAR"
      using all zero by (simp add: set_sortDetections)
    then have "candidates now (objectState st) (sortDetections dets) = []"
      by (rule candidates_all_clear)
    then have "c_announcement (runLoop st now dets) = None"
      by (simp add: runLoop_view)
    from processDetections_none [OF en this] show ?thesis by simp
  qed
  from d10 same clr step cand store silent show ?thesis by blast
qed

theorem zero_distance_is_skipped_witness:
  "distanceOf carAtZero = 10 \<and> levelOf carAtZero = CLEAR
   \<and> candidateOf 20000 (objectState readyEngine) carAtZero = None
   \<and> speechSynthesis (processDetections readyEngine 20000 20001 [carAtZero]) = Some []"
proof -
  have z: "det_distance_m carAtZero = Some 0"
    by (simp add: evals4)
  have a: "\<forall>d\<in>set [carAtZero]. det_distance_m d = Some 0"
    by (simp add: evals4)
  have q: "speechSynthesis readyEngine = Some []"
    by (simp add: evals4)
  from zero_distance_is_skipped [OF z, where now = 20000 and os = "objectState readyEngine"
      and dets = "[carAtZero]" and st = readyEngine and ns = 20001] a q
  show ?thesis by auto
qed

subsection \<open>Detections without a bounding box\<close>

lemmas evals5 = evals4 carSmallBox_def carLargerBox_def carNoBox_def carShortBox_def

text \<open>
  Claim C6, as stated, says that a detection without a bounding box has area 0 and makes
  the object's motion status stationary for that cycle, for a tracked identity as for a
  new one. A car seen with areas 1000 and 1060 and then without a box: the area is 0, the
  history stays [1000, 1060] and the motion status stored for the cycle is approaching,
  not stationary.
\<close>

theorem missing_bbox_keeps_motion_counterexample:
  "getBboxSize carNoBox = Some 0
   \<and> map_option os_bboxSizes
        (objectState (processDetections (processDetections (processDetections readyEngine
           1000 1000 [carSmallBox]) 2000 2000 [carLargerBox]) 3000 3000 [carNoBox])
           (IdStr ''car_c'')) = Some [1000, 1060]
   \<and> map_option os_isApproaching
        (objectState (processDetections (processDetections (processDetections readyEngine
           1000 1000 [carSmallBox]) 2000 2000 [carLargerBox]) 3000 3000 [carNoBox])
           (IdStr ''car_c'')) = Some True
   \<and> map_option os_isStationary
        (objectState (processDetections (processDetections (processDetections readyEngine
           1000 1000 [carSmallBox]) 2000 2000 [carLargerBox]) 3000 3000 [carNoBox])
           (IdStr ''car_c'')) = Some False"
  by (simp add: evals5)

lemma sizesOf_no_area:
  "\<forall>a. getBboxSize det = Some a \<longrightarrow> a \<le> 0 \<Longrightarrow> sizesOf prev det = historyOf prev"
  by (cases "getBboxSize det") (auto simp: sizesOf_def historyOf_def Let_def)

text \<open>
  Claim C6, amended. A detection with no bounding box (no \<open>bbox\<close> array, no \<open>x1\<close>/\<open>y1\<close>,
  no non-zero \<open>width\<close> and \<open>height\<close>) has area 0; a \<open>bbox\<close> array of fewer than four
  numbers has area \<open>NaN\<close>. Whenever the area is not a positive number and the detection is
  in range, nothing is appended to the identity's size history and the motion status
  stored for the cycle is the verdict of that retained history: stationary when the
  identity is new or has fewer than two samples, otherwise what the earlier samples give.
  The functions involved are total: none of these inputs raises an exception.
\<close>

theorem missing_bbox_keeps_history:
  "(det_bbox det = None \<and> (det_x1 det = None \<or> det_y1 det = None)
      \<and> \<not> (truthy_num (det_width det) \<and> truthy_num (det_height det)) \<longrightarrow>
      getBboxSize det = Some 0)
   \<and> ((\<exists>b. det_bbox det = Some b \<and> length b < 4) \<longrightarrow> getBboxSize det = None)
   \<and> ((\<forall>a. getBboxSize det = Some a \<longrightarrow> a \<le> 0) \<and> levelOf det \<noteq> CLEAR \<longrightarrow>
       (\<exists>r. c_objectState (processOne now c det) (trackIdOf det) = Some r
          \<and> os_bboxSizes r = historyOf (c_objectState c (trackIdOf det))
          \<and> os_isApproaching r
               = isApproaching (calculateMotionStatus (Some (historyOf (c_objectState c (trackIdOf det)))))
          \<and> os_isStationary r
               = isStationary (calculateMotionStatus (Some (historyOf (c_objectState c (trackIdOf det)))))
          \<and> (length (historyOf (c_objectState c (trackIdOf det))) < 2 \<longrightarrow>
               os_isStationary r \<and> \<not> os_isApproaching r)))"
proof -
  have missing: "getBboxSize det = Some 0"
    if "det_bbox det = None \<and> (det_x1 det = None \<or> det_y1 det = None)
      \<and> \<not> (truthy_num (det_width det) \<and> truthy_num (det_height det))"
    using that by (auto simp: getBboxSize_def)
  have short: "getBboxSize det = None" if "\<exists>b. det_bbox det = Some b \<and> length b < 4"
  proof -
    from that obtain b where b: "det_bbox det = Some b" "length b < 4" by blast
    then have "nth_opt b 3 = None" by (simp add: nth_opt_def)
    then have "boxArea (nth_opt b 0) (nth_opt b 1) (nth_opt b 2) (nth_opt b 3) = None"
      by (cases "nth_opt b 0"; cases "nth_opt b 1"; cases "nth_opt b 2") simp_all
    with b show ?thesis by (simp add: getBboxSize_def)
  qed
  have kept: "\<exists>r. c_objectState (processOne now c det) (trackIdOf det) = Some r
          \<and> os_bboxSizes r = historyOf (c_objectState c (trackIdOf det))
          \<and> os_isApproaching r
               = isApproaching (calculateMotionStatus (Some (historyOf (c_objectState c (trackIdOf det)))))
          \<and> os_isStationary r
               = isStationary (calculateMotionStatus (Some (historyOf (c_objectState c (trackIdOf det)))))
          \<and> (length (historyOf (c_objectState c (trackIdOf det))) < 2 \<longrightarrow>
               os_isStationary r \<and> \<not> os_isApproaching r)"
    if "(\<forall>a. getBboxSize det = Some a \<longrightarrow> a \<le> 0) \<and> levelOf det \<noteq> CLEAR"
  proof -
    let ?prev = "c_objectState c (trackIdOf det)"
    from that have na: "\<forall>a. getBboxSize det = Some a \<longrightarrow> a \<le> 0" and nc: "levelOf det \<noteq> CLEAR"
      by simp_all
    have sz: "sizesOf ?prev det = historyOf ?prev" using na by (rule sizesOf_no_area)
    have st: "c_objectState (processOne now c det) (trackIdOf det) = Some (recordOf now ?prev det)"
      using nc by (simp add: processOne_in_range)
    have "length (historyOf ?prev) < 2 \<longrightarrow>
        isStationary (calculateMotionStatus (Some (historyOf ?prev)))
        \<and> \<not> isApproaching (calculateMotionStatus (Some (historyOf ?prev)))"
      by (simp add: calculateMotionStatus_short)
    then show ?thesis
      unfolding st by (simp add: recordOf_def motionOf_def sz)
  qed
  from missing short kept show ?thesis by blast
qed

theorem missing_bbox_keeps_history_witness:
  "getBboxSize carNoBox = Some 0
   \<and> getBboxSize carShortBox = None
   \<and> (\<exists>r. c_objectState (processOne 3000 (freshCycle (\<lambda>_. None)) carNoBox) (IdStr ''car_c'') = Some r
         \<and> os_bboxSizes r = [] \<and> os_isStationary r \<and> \<not> os_isApproaching r)"
proof -
  have m: "det_bbox carNoBox = None \<and> (det_x1 carNoBox = None \<or> det_y1 carNoBox = None)
      \<and> \<not> (truthy_num (det_width carNoBox) \<and> truthy_num (det_height carNoBox))"
    by (simp add: evals5)
  have s: "\<exists>b. det_bbox carShortBox = Some b \<and> length b < 4"
    by (simp add: evals5)
  have f: "trackIdOf carNoBox = IdStr ''car_c''" "levelOf carNoBox \<noteq> CLEAR"
    "historyOf (c_objectState (freshCycle (\<lambda>_. None)) (IdStr ''car_c'')) = []"
    by (simp_all add: evals5 historyOf_def)
  from missing_bbox_keeps_history [where det = carNoBox] m
  have a: "getBboxSize carNoBox = Some 0" by blast
  from missing_bbox_keeps_history [where det = carShortBox] s
  have b: "getBboxSize carShortBox = None" by blast
  from a have na: "\<forall>x. getBboxSize carNoBox = Some x \<longrightarrow> x \<le> 0" by simp
  from missing_bbox_keeps_history [where det = carNoBox and now = 3000
      and c = "freshCycle (\<lambda>_. None)"] na f
  have c: "\<exists>r. c_objectState (processOne 3000 (freshCycle (\<lambda>_. None)) carNoBox) (IdStr ''car_c'') = Some r
         \<and> os_bboxSizes r = [] \<and> os_isStationary r \<and> \<not> os_isApproaching r"
    by auto
  from a b c show ?thesis by blast
qed

subsection \<open>Size histories hold positive areas\<close>

text \<open>
  The loop appends an area only when it is greater than zero, so every history it stores,
  and so every history it passes to \<open>calculateMotionStatus\<close>, consists of positive numbers
  when the histories of the store it started from do; a history never exceeds five
  samples.
\<close>

lemma sizesOf_positive:
  assumes "\<forall>s\<in>set (historyOf prev). 0 < s"
  shows "\<forall>s\<in>set (sizesOf prev det). 0 < s"
proof (cases "getBboxSize det")
  case None
  with assms show ?thesis by (simp add: sizesOf_def historyOf_def)
next
  case (Some area)
  show ?thesis
  proof (cases "0 < area")
    case False
    with Some assms show ?thesis by (simp add: sizesOf_def historyOf_def)
  next
    case True
    have "set (sizesOf prev det) \<subseteq> set (historyOf prev @ [area])"
      using Some True by (auto simp: sizesOf_def historyOf_def Let_def dest: in_set_dropD)
    with assms True show ?thesis by auto
  qed
qed

lemma storeStep_positive:
  assumes "\<forall>k r. os k = Some r \<longrightarrow> (\<forall>s\<in>set (os_bboxSizes r). 0 < s)"
  shows "\<forall>k r. storeStep now os d k = Some r \<longrightarrow> (\<forall>s\<in>set (os_bboxSizes r). 0 < s)"
proof (intro allI impI)
  fix k r assume kr: "storeStep now os d k = Some r"
  show "\<forall>s\<in>set (os_bboxSizes r). 0 < s"
  proof (cases "levelOf d \<noteq> CLEAR \<and> k = trackIdOf d")
    case False
    with kr have "os k = Some r" by (auto simp: storeStep_def split: if_splits)
    with assms show ?thesis by blast
  next
    case True
    with kr have r: "r = recordOf now (os (trackIdOf d)) d" by (simp add: storeStep_def)
    have "\<forall>s\<in>set (historyOf (os (trackIdOf d))). 0 < s"
      using assms by (cases "os (trackIdOf d)") (auto simp: historyOf_def)
    then have "\<forall>s\<in>set (sizesOf (os (trackIdOf d)) d). 0 < s" by (rule sizesOf_positive)
    then show ?thesis by (simp add: r recordOf_def)
  qed
qed

lemma loopStore_positive:
  assumes "\<forall>k r. os k = Some r \<longrightarrow> (\<forall>s\<in>set (os_bboxSizes r). 0 < s)"
  shows "\<forall>k r. foldl (storeStep now) os ds k = Some r \<longrightarrow> (\<forall>s\<in>set (os_bboxSizes r). 0 < s)"
  using assms
proof (induction ds arbitrary: os)
  case Nil
  then show ?case by simp
next
  case (Cons d ds)
  from storeStep_positive [OF Cons.prems]
  have "\<forall>k r. storeStep now os d k = Some r \<longrightarrow> (\<forall>s\<in>set (os_bboxSizes r). 0 < s)" .
  from Cons.IH [OF this] show ?case by simp
qed

lemma sizesOf_bounded: "length (historyOf prev) \<le> 5 \<Longrightarrow> length (sizesOf prev det) \<le> 5"
  by (cases "getBboxSize det") (auto simp: sizesOf_def historyOf_def Let_def sizeHistoryLength_def)

end
